theory Spec2Isabelle
  imports Complex_Main "HOL-Library.Word" "HOL-Library.AList" "HOL-Library.Product_Lexorder"
begin

unbundle bit_operations_syntax

section \<open>Data model of \<^verbatim>\<open>simulation.ts\<close>\<close>

text \<open>
  Coordinates, ids, ticks and counters are JavaScript numbers that only ever hold
  integers: they are \<open>int\<close>. Energies, rates and thresholds are \<open>real\<close> (the doubles of
  the source, read as the real numbers they stand for). The string keys \<^verbatim>\<open>`${x},${y}`\<close>
  are pairs of integers. A JavaScript \<^verbatim>\<open>Map\<close> iterates in insertion order, so maps are
  association lists (\<open>AList.update\<close> overwrites in place or appends, as \<^verbatim>\<open>Map.set\<close> does).
  The hit-point array is a \<^verbatim>\<open>Uint16Array\<close>: its cells are \<open>16 word\<close>. The grid is an
  \<^verbatim>\<open>Int32Array\<close> holding the codes \<open>0\<close>, \<open>-1\<close>, \<open>-2\<close> and organism ids; ids are issued
  by a counter that starts at 1 and are kept as \<open>int\<close>.
  \<^verbatim>\<open>Math.random()\<close> reads the next element of a sequence of draws carried by the state.
\<close>

type_synonym key = "int \<times> int"

datatype boundaryMode = Wrap | Closed

record SimulationParams =
  gridSize_p :: int
  c2 :: real
  foodSpawnRate :: real
  mutationRate :: real
  reproductionThreshold :: real
  initialOrganisms :: int
  maxMoveSpeed :: real
  viewRadius_p :: real
  energyTransferRatio :: real
  metabolismRate :: real
  movementEnergyReserve :: real
  movementEnergyCostMultiplier :: real
  growthEnergyCost :: real
  foodDecayTicks :: real
  foodDecayReturnRatio :: real
  attackEnergyCost :: real
  absorbEnergyCost :: real
  boundaryMode :: boundaryMode
  movementEnergyCostExponent :: real
  staminaMax :: real
  staminaRecoveryPerTick :: real
  staminaDrainPerStep :: real
  terrainEnabled :: bool
  terrainObstacleDensity :: real
  terrainSmoothingSteps :: real

record DebugCounters =
  moving :: int
  growing :: int
  attacking :: int
  starving :: int

record Genome =
  pattern :: "int list"
  size_g :: int
  totalCells :: nat

record Organism =
  id_o :: int
  eyeX :: int
  eyeY :: int
  pixels :: "(key \<times> nat) list"
  energy :: real
  moveSpeed :: int
  viewRadius :: real
  hunger :: real
  direction :: "int \<times> int"
  genome :: Genome
  growthStage :: int
  speciesMask :: "32 word"
  age :: int
  stuckCounter :: int
  stamina :: real
  movedThisTick :: bool

record Reservation =
  id_r :: int
  priority :: "32 word"

record Simulation =
  gridSize :: int
  params :: SimulationParams
  grid :: "int list"
  pixelHP :: "16 word list"
  organisms :: "Organism list"
  foodPixels :: "(key \<times> real) list"
  reservations :: "(key \<times> Reservation) list"
  obstacleKeys :: "key list"
  nextID :: int
  tick :: int
  envEnergy :: real
  debugCounters :: DebugCounters
  randoms :: "nat \<Rightarrow> real"
  randomPos :: nat

definition DIRECTIONS :: "(int \<times> int) list" where
  "DIRECTIONS = [(-1, -1), (-1, 0), (-1, 1), (0, -1), (0, 1), (1, -1), (1, 0), (1, 1)]"

text \<open>The offsets of the loops \<^verbatim>\<open>for dy in -1..1 { for dx in -1..1 {..} }\<close>, as \<open>(dx, dy)\<close>.\<close>

definition offsets9 :: "(int \<times> int) list" where
  "offsets9 = [(-1, -1), (0, -1), (1, -1), (-1, 0), (0, 0), (1, 0), (-1, 1), (0, 1), (1, 1)]"

definition offsets8 :: "(int \<times> int) list" where
  "offsets8 = [(-1, -1), (0, -1), (1, -1), (-1, 0), (1, 0), (-1, 1), (0, 1), (1, 1)]"

section \<open>Registry and random source\<close>

definition Math_random :: "Simulation \<Rightarrow> real \<times> Simulation" where
  "Math_random s = (randoms s (randomPos s), s\<lparr>randomPos := Suc (randomPos s)\<rparr>)"

text \<open>\<^verbatim>\<open>this.organisms.get(id)\<close>\<close>

definition getOrg :: "Simulation \<Rightarrow> int \<Rightarrow> Organism option" where
  "getOrg s i = find (\<lambda>og. id_o og = i) (organisms s)"

text \<open>A field update on the organism object registered under an id.\<close>

definition updOrg :: "int \<Rightarrow> (Organism \<Rightarrow> Organism) \<Rightarrow> Simulation \<Rightarrow> Simulation" where
  "updOrg i f s = s\<lparr>organisms := map (\<lambda>og. if id_o og = i then f og else og) (organisms s)\<rparr>"

text \<open>\<^verbatim>\<open>this.organisms.delete(id)\<close>\<close>

definition deleteOrg :: "int \<Rightarrow> Simulation \<Rightarrow> Simulation" where
  "deleteOrg i s = s\<lparr>organisms := filter (\<lambda>og. id_o og \<noteq> i) (organisms s)\<rparr>"

lemma getOrg_Some: "getOrg s i = Some og \<Longrightarrow> id_o og = i \<and> og \<in> set (organisms s)"
  unfolding getOrg_def by (auto simp: find_Some_iff)

section \<open>Doubles\<close>

text \<open>The numbers of the source are IEEE 754 doubles. \<open>fl x\<close> is the double nearest to the
  real number \<open>x\<close>, ties going to the even significand, with the exponent range taken
  unbounded: it is what the source computes whenever the result is a normal double.
  A decimal constant denotes the double nearest to it, so the operations round their
  operands first (which leaves a double as it is).\<close>

fun bitlen :: "nat \<Rightarrow> nat" where
  "bitlen n = (if n = 0 then 0 else Suc (bitlen (n div 2)))"

definition pow2 :: "int \<Rightarrow> real" where
  "pow2 e = (if e \<ge> 0 then 2 ^ nat e else 1 / 2 ^ nat (- e))"

text \<open>The binary exponent \<open>\<lfloor>log\<^sub>2 \<bar>x\<bar>\<rfloor>\<close> of a non-zero number.\<close>

definition expo :: "real \<Rightarrow> int" where
  "expo x =
     (let a = \<bar>x\<bar> in
      if a \<ge> 1 then int (bitlen (nat \<lfloor>a\<rfloor>)) - 1
      else (let b = int (bitlen (nat \<lfloor>1 / a\<rfloor>)) in
            if a * 2 ^ nat (b - 1) = 1 then 1 - b else - b))"

text \<open>Rounding to the nearest integer, ties to even.\<close>

definition rne :: "real \<Rightarrow> int" where
  "rne x =
     (let f = \<lfloor>x\<rfloor>; d = x - of_int f in
      if d < 1 / 2 then f
      else if d > 1 / 2 then f + 1
      else if even f then f else f + 1)"

definition fl :: "real \<Rightarrow> real" where
  "fl x = (if x = 0 then 0 else (let u = pow2 (expo x - 52) in of_int (rne (x / u)) * u))"

definition fadd :: "real \<Rightarrow> real \<Rightarrow> real" where
  "fadd a b = fl (fl a + fl b)"

definition fsub :: "real \<Rightarrow> real \<Rightarrow> real" where
  "fsub a b = fl (fl a - fl b)"

definition fmul :: "real \<Rightarrow> real \<Rightarrow> real" where
  "fmul a b = fl (fl a * fl b)"

section \<open>Coordinates\<close>

definition idx :: "Simulation \<Rightarrow> int \<Rightarrow> int \<Rightarrow> nat" where
  "idx s x y = nat (y * gridSize s + x)"

text \<open>JavaScript's \<^verbatim>\<open>%\<close> takes the sign of the dividend.\<close>

definition jsrem :: "int \<Rightarrow> int \<Rightarrow> int" where
  "jsrem a m = sgn a * (\<bar>a\<bar> mod \<bar>m\<bar>)"

definition wrapCoord :: "Simulation \<Rightarrow> int \<Rightarrow> int" where
  "wrapCoord s v0 = (let m = gridSize s; v = jsrem v0 m in if v < 0 then v + m else v)"

definition boundX :: "Simulation \<Rightarrow> int \<Rightarrow> int option" where
  "boundX s x =
     (if boundaryMode (params s) = Wrap then Some (wrapCoord s x)
      else if x \<ge> 0 \<and> x < gridSize s then Some x else None)"

definition boundY :: "Simulation \<Rightarrow> int \<Rightarrow> int option" where
  "boundY s y =
     (if boundaryMode (params s) = Wrap then Some (wrapCoord s y)
      else if y \<ge> 0 \<and> y < gridSize s then Some y else None)"

definition applyBoundary :: "Simulation \<Rightarrow> int \<Rightarrow> int \<Rightarrow> key option" where
  "applyBoundary s x y =
     (case boundX s x of None \<Rightarrow> None
      | Some bx \<Rightarrow> (case boundY s y of None \<Rightarrow> None | Some by \<Rightarrow> Some (bx, by)))"

definition neighbors8 :: "Simulation \<Rightarrow> int \<Rightarrow> int \<Rightarrow> key list" where
  "neighbors8 s x y =
     List.map_filter (\<lambda>(dx, dy). applyBoundary s (x + dx) (y + dy)) offsets8"

section \<open>Genomes\<close>

text \<open>\<^verbatim>\<open>pattern[i]\<close>, which is \<^verbatim>\<open>undefined\<close> outside the array.\<close>

definition patAt :: "int list \<Rightarrow> int \<Rightarrow> int option" where
  "patAt p i = (if 0 \<le> i \<and> nat i < length p then Some (p ! nat i) else None)"

definition countCells :: "int list \<Rightarrow> nat" where
  "countCells p = length (filter (\<lambda>c. c = 1) p)"

text \<open>The inner loop of \<^verbatim>\<open>generateGenome\<close> over the unvisited neighbours of a cell.\<close>

fun genomeFill ::
  "nat \<Rightarrow> nat list \<Rightarrow> int list \<times> nat \<times> nat list \<times> nat list \<times> Simulation
     \<Rightarrow> int list \<times> nat \<times> nat list \<times> nat list \<times> Simulation" where
  "genomeFill cellCount [] st = st"
| "genomeFill cellCount (n # ns) (pat, placed, queue, visited, s) =
     (if placed \<ge> cellCount then (pat, placed, queue, visited, s)
      else (let (r, s1) = Math_random s in
        if r > 0.4
        then genomeFill cellCount ns (pat[n := 1], placed + 1, queue @ [n], visited @ [n], s1)
        else genomeFill cellCount ns (pat, placed, queue, visited, s1)))"

definition genomeNeighbors :: "nat \<Rightarrow> nat list \<Rightarrow> nat list" where
  "genomeNeighbors current visited =
     (let y = int current div 7; x = int current mod 7 in
      List.map_filter (\<lambda>(dx, dy).
          let nx = x + dx; ny = y + dy in
          if nx \<ge> 0 \<and> nx < 7 \<and> ny \<ge> 0 \<and> ny < 7 \<and> nat (ny * 7 + nx) \<notin> set visited
          then Some (nat (ny * 7 + nx)) else None) offsets8)"

function genomeLoop ::
  "nat \<Rightarrow> int list \<times> nat \<times> nat list \<times> nat list \<times> Simulation \<Rightarrow> int list \<times> Simulation" where
  "genomeLoop cellCount (pat, placed, queue, visited, s) =
     (if placed < cellCount \<and> queue \<noteq> []
      then genomeLoop cellCount
             (genomeFill cellCount (genomeNeighbors (hd queue) visited)
                (pat, placed, tl queue, visited, s))
      else (pat, s))"
  by pat_completeness auto

lemma genomeFill_measure:
  "genomeFill cc ns (pat, placed, queue, visited, s) = (pat', placed', queue', visited', s')
   \<Longrightarrow> (cc - placed') + length queue' \<le> (cc - placed) + length queue"
proof (induction ns arbitrary: pat placed queue visited s)
  case Nil
  then show ?case by simp
next
  case (Cons n ns)
  show ?case
  proof (cases "placed \<ge> cc")
    case True
    with Cons.prems show ?thesis by simp
  next
    case False
    show ?thesis
    proof (cases "randoms s (randomPos s) > 0.4")
      case True
      with False Cons.prems have
        "genomeFill cc ns (pat[n := 1], placed + 1, queue @ [n], visited @ [n],
           s\<lparr>randomPos := Suc (randomPos s)\<rparr>) = (pat', placed', queue', visited', s')"
        by (simp add: Math_random_def)
      from Cons.IH [OF this] False show ?thesis by simp
    next
      case r: False
      with False Cons.prems have
        "genomeFill cc ns (pat, placed, queue, visited,
           s\<lparr>randomPos := Suc (randomPos s)\<rparr>) = (pat', placed', queue', visited', s')"
        by (simp add: Math_random_def)
      from Cons.IH [OF this] show ?thesis .
    qed
  qed
qed

termination genomeLoop
proof (relation "measure (\<lambda>(cc, (pat, placed, queue, visited, s)). (cc - placed) + length queue)")
  show "wf (measure (\<lambda>(cc, (pat, placed, queue, visited, s)). (cc - placed) + length queue))"
    by simp
next
  fix cellCount placed :: nat and pat :: "int list" and queue visited :: "nat list"
    and s :: Simulation
  assume a: "placed < cellCount \<and> queue \<noteq> []"
  obtain pat' placed' queue' visited' s' where
    r: "genomeFill cellCount (genomeNeighbors (hd queue) visited)
          (pat, placed, tl queue, visited, s) = (pat', placed', queue', visited', s')"
    by (metis prod_cases5)
  from genomeFill_measure [OF r] a
  have "(cellCount - placed') + length queue' < (cellCount - placed) + length queue"
    by (cases queue) auto
  with r show "((cellCount, genomeFill cellCount (genomeNeighbors (hd queue) visited)
                   (pat, placed, tl queue, visited, s)),
                cellCount, pat, placed, queue, visited, s)
               \<in> measure (\<lambda>(cc, (pat, placed, queue, visited, s)). (cc - placed) + length queue)"
    by simp
qed

definition generateGenome :: "Simulation \<Rightarrow> Genome \<times> Simulation" where
  "generateGenome s =
     (let center = (24::nat);
          pat0 = (replicate 49 (0::int))[center := 1];
          (r, s1) = Math_random s;
          cellCount = nat (10 + \<lfloor>r * 15\<rfloor>);
          (pat, s2) = genomeLoop cellCount (pat0, 1, [center], [center], s1)
      in (\<lparr>pattern = pat, size_g = 7, totalCells = countCells pat\<rparr>, s2))"

definition speciesMaskFromGenome :: "Genome \<Rightarrow> 32 word" where
  "speciesMaskFromGenome g =
     (let sz = size_g g; cx = sz div 2; cy = sz div 2 in
      fold (\<lambda>(bitIndex, (dx, dy)) mask.
          let gx = cx + dx; gy = cy + dy in
          if gx \<ge> 0 \<and> gx < sz \<and> gy \<ge> 0 \<and> gy < sz \<and> patAt (pattern g) (gy * sz + gx) = Some 1
          then mask OR push_bit bitIndex 1 else mask)
        (zip [0 ..< 8] offsets8) 0)"

definition randomDirection :: "Simulation \<Rightarrow> (int \<times> int) \<times> Simulation" where
  "randomDirection s =
     (let (r, s1) = Math_random s in (DIRECTIONS ! nat \<lfloor>r * 8\<rfloor>, s1))"

section \<open>Creating an organism\<close>

text \<open>The 3x3 scan of \<^verbatim>\<open>createOrganism\<close>: a neighbour outside the grid is skipped.\<close>

definition spawnBlocked :: "Simulation \<Rightarrow> int \<Rightarrow> int \<Rightarrow> bool" where
  "spawnBlocked s x y =
     list_ex (\<lambda>(dx, dy).
        case applyBoundary s (x + dx) (y + dy) of
          None \<Rightarrow> False
        | Some (nx, ny) \<Rightarrow> grid s ! idx s nx ny \<noteq> 0) offsets9"

definition createOrganism ::
  "int \<Rightarrow> int \<Rightarrow> Genome option \<Rightarrow> real option \<Rightarrow> Simulation \<Rightarrow> Organism option \<times> Simulation" where
  "createOrganism x0 y0 genomeArg energyArg s =
     (case applyBoundary s x0 y0 of
        None \<Rightarrow> (None, s)
      | Some (ex, ey) \<Rightarrow>
          if spawnBlocked s ex ey then (None, s)
          else
            (let i = nextID s;
                 s1 = s\<lparr>nextID := nextID s + 1\<rparr>;
                 (gen, s2) = (case genomeArg of Some g \<Rightarrow> (g, s1) | None \<Rightarrow> generateGenome s1);
                 (r1, s3) = Math_random s2;
                 (r2, s4) = Math_random s3;
                 (dir, s5) = randomDirection s4;
                 org = \<lparr>id_o = i, eyeX = ex, eyeY = ey,
                        pixels = [((ex, ey), totalCells gen)],
                        energy = (case energyArg of Some e \<Rightarrow> e | None \<Rightarrow> 400),
                        moveSpeed = 1 + \<lfloor>r1 * maxMoveSpeed (params s)\<rfloor>,
                        viewRadius = viewRadius_p (params s),
                        hunger = 0.5 + r2 * 0.3,
                        direction = dir,
                        genome = gen,
                        growthStage = 0,
                        speciesMask = speciesMaskFromGenome gen,
                        age = 0, stuckCounter = 0,
                        stamina = staminaMax (params s),
                        movedThisTick = False\<rparr>;
                 k = idx s ex ey
             in (Some org,
                 s5\<lparr>grid := (grid s5)[k := i],
                    pixelHP := (pixelHP s5)[k := word_of_nat (totalCells gen)],
                    organisms := organisms s5 @ [org]\<rparr>)))"


section \<open>Death and connectivity\<close>

definition hasKey :: "'k \<Rightarrow> ('k \<times> 'v) list \<Rightarrow> bool" where
  "hasKey k al = (map_of al k \<noteq> None)"

text \<open>One cell turned into food: the body of the loops of \<^verbatim>\<open>removeOrganism\<close>,
  \<^verbatim>\<open>checkConnectivity\<close> and \<^verbatim>\<open>verifyAndSync\<close>.\<close>

definition makeFood :: "key \<Rightarrow> Simulation \<Rightarrow> Simulation" where
  "makeFood k s =
     (let j = idx s (fst k) (snd k) in
      s\<lparr>grid := (grid s)[j := -1],
        pixelHP := (pixelHP s)[j := 1],
        foodPixels := AList.update k (foodDecayTicks (params s)) (foodPixels s)\<rparr>)"

definition removeOrganism :: "int \<Rightarrow> Simulation \<Rightarrow> Simulation" where
  "removeOrganism i s =
     (case getOrg s i of
        None \<Rightarrow> s
      | Some org \<Rightarrow> deleteOrg i (fold makeFood (map fst (pixels org)) s))"

text \<open>The breadth-first search of \<^verbatim>\<open>checkConnectivity\<close>: the inner loop over the
  neighbours of the dequeued key, and the queue loop. The state is \<open>(reachable, queue)\<close>.\<close>

fun bfsVisit :: "(key \<times> nat) list \<Rightarrow> key list \<Rightarrow> key list \<times> key list \<Rightarrow> key list \<times> key list" where
  "bfsVisit px [] st = st"
| "bfsVisit px (n # ns) (reach, queue) =
     (if hasKey n px \<and> n \<notin> set reach
      then bfsVisit px ns (reach @ [n], queue @ [n])
      else bfsVisit px ns (reach, queue))"

function bfsLoop :: "Simulation \<Rightarrow> (key \<times> nat) list \<Rightarrow> key list \<times> key list \<Rightarrow> key list" where
  "bfsLoop s px (reach, []) = reach"
| "bfsLoop s px (reach, k # queue) =
     bfsLoop s px (bfsVisit px (neighbors8 s (fst k) (snd k)) (reach, queue))"
  by pat_completeness auto

lemma bfsVisit_measure:
  "bfsVisit px ns (reach, queue) = (reach', queue')
   \<Longrightarrow> length queue' + card (fst ` set px - set reach')
       \<le> length queue + card (fst ` set px - set reach)"
proof (induction ns arbitrary: reach queue)
  case Nil
  then show ?case by simp
next
  case (Cons n ns)
  show ?case
  proof (cases "hasKey n px \<and> n \<notin> set reach")
    case True
    with Cons.prems have "bfsVisit px ns (reach @ [n], queue @ [n]) = (reach', queue')"
      by simp
    from Cons.IH [OF this]
    have le: "length queue' + card (fst ` set px - set reach')
                \<le> Suc (length queue) + card (fst ` set px - insert n (set reach))"
      by simp
    from True have "n \<in> fst ` set px - set reach"
      by (simp add: hasKey_def map_of_eq_None_iff)
    then have "card (fst ` set px - insert n (set reach)) < card (fst ` set px - set reach)"
      by (metis Diff_insert card_Diff1_less finite_Diff finite_imageI finite_set)
    with le show ?thesis by simp
  next
    case False
    with Cons.prems have "bfsVisit px ns (reach, queue) = (reach', queue')"
      by auto
    from Cons.IH [OF this] show ?thesis .
  qed
qed

termination bfsLoop
proof (relation "measure (\<lambda>(s, px, (reach, queue)).
                   length queue + card (fst ` set px - set reach))")
  show "wf (measure (\<lambda>(s, px, (reach, queue)).
              length queue + card (fst ` set px - set reach)))"
    by simp
next
  fix s :: Simulation and px :: "(key \<times> nat) list" and reach queue :: "key list" and k :: key
  obtain reach' queue' where
    r: "bfsVisit px (neighbors8 s (fst k) (snd k)) (reach, queue) = (reach', queue')"
    by (cases "bfsVisit px (neighbors8 s (fst k) (snd k)) (reach, queue)")
  from bfsVisit_measure [OF r] r
  show "((s, px, bfsVisit px (neighbors8 s (fst k) (snd k)) (reach, queue)),
         s, px, reach, k # queue)
        \<in> measure (\<lambda>(s, px, (reach, queue)).
              length queue + card (fst ` set px - set reach))"
    by simp
qed

text \<open>A cell found unreachable: it becomes food and leaves the organism's pixel map.\<close>

definition detach :: "int \<Rightarrow> key \<Rightarrow> Simulation \<Rightarrow> Simulation" where
  "detach i k s = updOrg i (\<lambda>og. og\<lparr>pixels := AList.delete k (pixels og)\<rparr>) (makeFood k s)"

text \<open>The loop over \<^verbatim>\<open>Array.from(org.pixels.keys())\<close> that detaches what was not reached.\<close>

definition detachLoop :: "int \<Rightarrow> key list \<Rightarrow> key list \<Rightarrow> Simulation \<Rightarrow> Simulation" where
  "detachLoop i reachable ks s =
     fold (\<lambda>k st. if k \<in> set reachable then st else detach i k st) ks s"

text \<open>\<^verbatim>\<open>checkConnectivity(org)\<close>. The source passes the organism object, which every caller
  has just read from the registry; the model passes its id.\<close>

definition checkConnectivity :: "int \<Rightarrow> Simulation \<Rightarrow> Simulation" where
  "checkConnectivity i s =
     (case getOrg s i of
        None \<Rightarrow> s
      | Some org \<Rightarrow>
          if length (pixels org) = 0 then removeOrganism i s
          else
            (let eyeKey = (eyeX org, eyeY org) in
             if \<not> hasKey eyeKey (pixels org) then removeOrganism i s
             else
               (let reachable = bfsLoop s (pixels org) ([eyeKey], [eyeKey]);
                    s1 = detachLoop i reachable (map fst (pixels org)) s
                in case getOrg s1 i of
                     None \<Rightarrow> s1
                   | Some org1 \<Rightarrow> if length (pixels org1) = 0 then removeOrganism i s1 else s1)))"

section \<open>Combat and feeding\<close>

text \<open>\<^verbatim>\<open>Math.max(0, this.pixelHP[i] - 1)\<close>, stored back into the 16-bit cell.\<close>

definition hpDec :: "16 word \<Rightarrow> 16 word" where
  "hpDec h = word_of_int (max 0 (uint h - 1))"

text \<open>The body of the scan of \<^verbatim>\<open>combat\<close> for one neighbouring cell: the attack targets
  found so far and the state (a draw is made when the sizes are equal).\<close>

definition considerTarget ::
  "Organism \<Rightarrow> key \<Rightarrow> (int \<times> int \<times> int) list \<times> Simulation
     \<Rightarrow> (int \<times> int \<times> int) list \<times> Simulation" where
  "considerTarget org n st =
     (let (acc, s) = st; (nx, ny) = n; targetID = grid s ! idx s nx ny in
      if targetID = -1 then (acc, s)
      else if targetID \<le> 0 \<or> targetID = id_o org then (acc, s)
      else
        (case getOrg s targetID of
           None \<Rightarrow> (acc, s)
         | Some target \<Rightarrow>
             if speciesMask target = speciesMask org then (acc, s)
             else
               (let orgSize = length (pixels org); targetSize = length (pixels target) in
                if orgSize = targetSize
                then (let (r, s1) = Math_random s in
                      if r < hunger org * 0.6 then (acc @ [(nx, ny, targetID)], s1)
                      else (acc, s1))
                else if orgSize > targetSize then (acc @ [(nx, ny, targetID)], s)
                else (acc, s))))"

definition collectTargets :: "Organism \<Rightarrow> Simulation \<Rightarrow> (int \<times> int \<times> int) list \<times> Simulation" where
  "collectTargets org s =
     fold (\<lambda>k st. fold (considerTarget org) (neighbors8 (snd st) (fst k) (snd k)) st)
       (map fst (pixels org)) ([], s)"

text \<open>The kill: the attacker and the environment are credited (in double arithmetic),
  the cell is vacated and the victim's connectivity is checked.\<close>

definition killCell :: "int \<Rightarrow> int \<times> int \<times> int \<Rightarrow> Simulation \<Rightarrow> Simulation" where
  "killCell i t s =
     (let (tx, ty, targetID) = t;
          e = c2 (params s);
          s1 = updOrg i
                 (\<lambda>og. og\<lparr>energy := fadd (energy og) (fmul e (energyTransferRatio (params s)))\<rparr>) s;
          s2 = s1\<lparr>envEnergy :=
                    fadd (envEnergy s1) (fmul e (fsub 1 (energyTransferRatio (params s))))\<rparr>;
          s3 = s2\<lparr>grid := (grid s2)[idx s tx ty := 0]\<rparr>;
          s4 = (case getOrg s3 targetID of
                  None \<Rightarrow> s3
                | Some target \<Rightarrow>
                    checkConnectivity targetID
                      (updOrg targetID
                         (\<lambda>og. og\<lparr>pixels := AList.delete (tx, ty) (pixels og)\<rparr>) s3))
      in s4\<lparr>debugCounters := (debugCounters s4)\<lparr>attacking := attacking (debugCounters s4) + 1\<rparr>\<rparr>)"

text \<open>The attack of organism \<open>i\<close> on the chosen target \<open>(tx, ty, targetID)\<close>: the part of
  the loop body of \<^verbatim>\<open>combat\<close> after the target is chosen.\<close>

definition attackTarget :: "int \<Rightarrow> int \<times> int \<times> int \<Rightarrow> Simulation \<Rightarrow> Simulation" where
  "attackTarget i t s =
     (let (tx, ty, targetID) = t;
          targetIndex = idx s tx ty;
          cost = attackEnergyCost (params s) in
      if cost > 0 \<and> (case getOrg s i of None \<Rightarrow> False | Some org \<Rightarrow> energy org - cost \<le> 0)
      then s
      else
        (let s1 = (if cost > 0 then updOrg i (\<lambda>og. og\<lparr>energy := energy og - cost\<rparr>) s else s);
             s2 = s1\<lparr>pixelHP := (pixelHP s1)[targetIndex := hpDec (pixelHP s1 ! targetIndex)]\<rparr>
         in if pixelHP s2 ! targetIndex > 0 then s2 else killCell i t s2))"

text \<open>One iteration of \<^verbatim>\<open>for (const org of this.organisms.values())\<close> in \<^verbatim>\<open>combat\<close>. The
  iteration of a JavaScript map skips an entry deleted before it is reached.\<close>

definition combatOrg :: "int \<Rightarrow> Simulation \<Rightarrow> Simulation" where
  "combatOrg i s =
     (case getOrg s i of
        None \<Rightarrow> s
      | Some org \<Rightarrow>
          (let (attackTargets, s1) = collectTargets org s in
           if length attackTargets = 0 then s1
           else
             (let (r, s2) = Math_random s1;
                  t = attackTargets ! nat \<lfloor>r * real (length attackTargets)\<rfloor>
              in attackTarget i t s2)))"

definition combat :: "Simulation \<Rightarrow> Simulation" where
  "combat s = fold combatOrg (map id_o (organisms s)) s"

text \<open>The absorption of the food cell \<open>(nx, ny)\<close> by organism \<open>i\<close>, once the fee is known to
  be affordable.\<close>

definition absorbCell :: "int \<Rightarrow> key \<Rightarrow> Simulation \<Rightarrow> Simulation" where
  "absorbCell i n s =
     (let (nx, ny) = n;
          ni = idx s nx ny;
          cost = absorbEnergyCost (params s);
          s1 = (if cost > 0 then updOrg i (\<lambda>og. og\<lparr>energy := fsub (energy og) cost\<rparr>) s else s);
          s2 = s1\<lparr>pixelHP := (pixelHP s1)[ni := hpDec (pixelHP s1 ! ni)]\<rparr>
      in if pixelHP s2 ! ni = 0
         then
           (let e = c2 (params s);
                s3 = updOrg i
                       (\<lambda>og. og\<lparr>energy := fadd (energy og) (fmul e (energyTransferRatio (params s)))\<rparr>) s2
            in s3\<lparr>envEnergy := fadd (envEnergy s3) (fmul e (fsub 1 (energyTransferRatio (params s)))),
                  grid := (grid s3)[ni := 0],
                  foodPixels := AList.delete (nx, ny) (foodPixels s3)\<rparr>)
         else s2)"

text \<open>The loop over the neighbours of one cell: \<open>True\<close> when a food cell was absorbed.\<close>

fun absorbNeighbors :: "Organism \<Rightarrow> key list \<Rightarrow> Simulation \<Rightarrow> bool \<times> Simulation" where
  "absorbNeighbors org [] s = (False, s)"
| "absorbNeighbors org (n # ns) s =
     (if grid s ! idx s (fst n) (snd n) \<noteq> -1 then absorbNeighbors org ns s
      else if absorbEnergyCost (params s) > 0 \<and> energy org - absorbEnergyCost (params s) \<le> 0
      then absorbNeighbors org ns s
      else (True, absorbCell (id_o org) n s))"

fun absorbKeys :: "Organism \<Rightarrow> key list \<Rightarrow> Simulation \<Rightarrow> Simulation" where
  "absorbKeys org [] s = s"
| "absorbKeys org (k # ks) s =
     (case absorbNeighbors org (neighbors8 s (fst k) (snd k)) s of
        (True, s1) \<Rightarrow> s1
      | (False, s1) \<Rightarrow> absorbKeys org ks s1)"

definition absorbOrg :: "int \<Rightarrow> Simulation \<Rightarrow> Simulation" where
  "absorbOrg i s =
     (case getOrg s i of None \<Rightarrow> s | Some org \<Rightarrow> absorbKeys org (map fst (pixels org)) s)"

definition absorbFood :: "Simulation \<Rightarrow> Simulation" where
  "absorbFood s = fold absorbOrg (map id_o (organisms s)) s"

section \<open>Growth\<close>

text \<open>The clockwise walk around ring \<open>r\<close> of the genome, as offsets \<open>(dx, dy)\<close>.\<close>

definition ringSegments :: "int \<Rightarrow> (int \<times> int) list" where
  "ringSegments r =
     map (\<lambda>dx. (dx, - r)) [- r .. r] @
     map (\<lambda>dy. (r, dy)) [- r + 1 .. r] @
     map (\<lambda>dx. (dx, r)) (rev [- r .. r - 1]) @
     map (\<lambda>dy. (- r, dy)) (rev [- r + 1 .. r - 1])"

text \<open>The tests of the loop body of \<^verbatim>\<open>growOrganism\<close> for one offset: the world cell to
  grow into, or \<open>None\<close> where the source says \<^verbatim>\<open>continue\<close>.\<close>

definition growthCell :: "Simulation \<Rightarrow> Organism \<Rightarrow> int \<times> int \<Rightarrow> key option" where
  "growthCell s org d =
     (let (dx, dy) = d;
          sz = size_g (genome org);
          cx = sz div 2; cy = sz div 2;
          gx = cx + dx; gy = cy + dy in
      if gx < 0 \<or> gx \<ge> sz \<or> gy < 0 \<or> gy \<ge> sz then None
      else if patAt (pattern (genome org)) (gy * sz + gx) = Some 0 then None
      else
        (case applyBoundary s (eyeX org + dx) (eyeY org + dy) of
           None \<Rightarrow> None
         | Some (bx, by) \<Rightarrow>
             if hasKey (bx, by) (pixels org) then None
             else if grid s ! idx s bx by \<noteq> 0 then None
             else if \<not> list_ex (\<lambda>n. hasKey n (pixels org)) (neighbors8 s bx by) then None
             else Some (bx, by)))"

fun firstSome :: "('a \<Rightarrow> 'b option) \<Rightarrow> 'a list \<Rightarrow> 'b option" where
  "firstSome f [] = None"
| "firstSome f (x # xs) = (case f x of Some y \<Rightarrow> Some y | None \<Rightarrow> firstSome f xs)"

definition growOrganism :: "int \<Rightarrow> Simulation \<Rightarrow> bool \<times> Simulation" where
  "growOrganism i s =
     (case getOrg s i of
        None \<Rightarrow> (False, s)
      | Some org \<Rightarrow>
          if growthStage org \<ge> int (totalCells (genome org)) - 1 then (False, s)
          else
            (let growthCost = max 0 (growthEnergyCost (params s)) in
             if energy org < growthCost then (False, s)
             else
               (case firstSome (growthCell s org)
                       (concat (map ringSegments [1 .. (size_g (genome org) + 1) div 2])) of
                  None \<Rightarrow> (False, s)
                | Some (bx, by) \<Rightarrow>
                    (let j = idx s bx by;
                         tc = totalCells (genome org);
                         s1 = s\<lparr>grid := (grid s)[j := id_o org],
                                pixelHP := (pixelHP s)[j := word_of_nat tc]\<rparr>;
                         s2 = updOrg i (\<lambda>og. og\<lparr>pixels := AList.update (bx, by) tc (pixels og),
                                                  growthStage := growthStage og + 1,
                                                  energy := energy og - growthCost\<rparr>) s1
                     in (True, s2\<lparr>debugCounters :=
                           (debugCounters s2)\<lparr>growing := growing (debugCounters s2) + 1\<rparr>\<rparr>)))))"

section \<open>Food, metabolism and the final synchronisation\<close>

fun spawnLoop :: "nat \<Rightarrow> Simulation \<Rightarrow> Simulation" where
  "spawnLoop 0 s = s"
| "spawnLoop (Suc n) s =
     (if envEnergy s > c2 (params s)
      then (let (r1, s1) = Math_random s;
                (r2, s2) = Math_random s1;
                x = \<lfloor>r1 * real_of_int (gridSize s)\<rfloor>;
                y = \<lfloor>r2 * real_of_int (gridSize s)\<rfloor>;
                j = idx s x y in
            spawnLoop n
              (if grid s2 ! j = 0
               then s2\<lparr>grid := (grid s2)[j := -1],
                       pixelHP := (pixelHP s2)[j := 1],
                       foodPixels := AList.update (x, y) (foodDecayTicks (params s)) (foodPixels s2),
                       envEnergy := envEnergy s2 - c2 (params s)\<rparr>
               else s2))
      else s)"

definition spawnFood :: "Simulation \<Rightarrow> Simulation" where
  "spawnFood s =
     spawnLoop (nat \<lfloor>envEnergy s * foodSpawnRate (params s) / c2 (params s)\<rfloor>) s"

text \<open>The second loop of \<^verbatim>\<open>updateFoodDecay\<close>: an expired food cell is cleared and part of
  its energy goes back to the environment.\<close>

definition clearFood :: "key \<Rightarrow> Simulation \<Rightarrow> Simulation" where
  "clearFood k s =
     (let j = idx s (fst k) (snd k) in
      s\<lparr>grid := (grid s)[j := 0],
        pixelHP := (pixelHP s)[j := 0],
        foodPixels := AList.delete k (foodPixels s),
        envEnergy := envEnergy s + c2 (params s) * foodDecayReturnRatio (params s)\<rparr>)"

definition updateFoodDecay :: "Simulation \<Rightarrow> Simulation" where
  "updateFoodDecay s =
     (let toDelete = map fst (filter (\<lambda>(k, ttl). ttl - 1 \<le> 0) (foodPixels s));
          aged = map (\<lambda>(k, ttl). if ttl - 1 \<le> 0 then (k, ttl) else (k, ttl - 1)) (foodPixels s)
      in fold clearFood toDelete (s\<lparr>foodPixels := aged\<rparr>))"

definition metabolismOrg :: "int \<Rightarrow> Simulation \<Rightarrow> Simulation" where
  "metabolismOrg i s =
     (case getOrg s i of
        None \<Rightarrow> s
      | Some org \<Rightarrow>
          (let e = energy org - real (length (pixels org)) * metabolismRate (params s);
               s1 = updOrg i (\<lambda>og. og\<lparr>age := age og + 1, energy := e\<rparr>) s
           in if e \<le> 0 then removeOrganism i s1 else s1))"

definition metabolism :: "Simulation \<Rightarrow> Simulation" where
  "metabolism s = fold metabolismOrg (map id_o (organisms s)) s"

text \<open>The cells of the grid in the order of \<^verbatim>\<open>for y { for x {..} }\<close>.\<close>

definition allCells :: "Simulation \<Rightarrow> key list" where
  "allCells s = concat (map (\<lambda>y. map (\<lambda>x. (x, y)) [0 .. gridSize s - 1]) [0 .. gridSize s - 1])"

definition syncCell :: "key \<Rightarrow> Simulation \<Rightarrow> Simulation" where
  "syncCell k s =
     (let j = idx s (fst k) (snd k); owner = grid s ! j in
      if owner > 0
      then (case getOrg s owner of
              Some org \<Rightarrow>
                updOrg owner
                  (\<lambda>og. og\<lparr>pixels := AList.update k
                            (if pixelHP s ! j = 0 then totalCells (genome og)
                             else unat (pixelHP s ! j)) (pixels og)\<rparr>) s
            | None \<Rightarrow> makeFood k s)
      else s)"

definition verifyAndSync :: "Simulation \<Rightarrow> Simulation" where
  "verifyAndSync s =
     fold syncCell (allCells s)
       (s\<lparr>organisms := map (\<lambda>og. og\<lparr>pixels := []\<rparr>) (organisms s)\<rparr>)"

section \<open>Perception and the choice of a heading\<close>

text \<open>One ray of \<^verbatim>\<open>detectTargets\<close> over the distances still to visit: the first organism
  seen, as \<open>(id, size, dx, dy, dist)\<close>.\<close>

fun castTarget ::
  "Simulation \<Rightarrow> Organism \<Rightarrow> int \<times> int \<Rightarrow> bool \<Rightarrow> int list
     \<Rightarrow> (int \<times> nat \<times> int \<times> int \<times> int) option" where
  "castTarget s org dir selfBlocked [] = None"
| "castTarget s org dir selfBlocked (d # ds) =
     (case applyBoundary s (eyeX org + fst dir * d) (eyeY org + snd dir * d) of
        None \<Rightarrow> None
      | Some (x, y) \<Rightarrow>
          (let occupantId = grid s ! idx s x y in
           if occupantId = id_o org then castTarget s org dir True ds
           else if selfBlocked then None
           else if occupantId = -2 then None
           else if occupantId > 0
           then (case getOrg s occupantId of
                   Some target \<Rightarrow> Some (occupantId, length (pixels target), fst dir, snd dir, d)
                 | None \<Rightarrow> None)
           else castTarget s org dir selfBlocked ds))"

text \<open>One ray of \<^verbatim>\<open>detectFood\<close>: the first food cell seen, as \<open>(dx, dy, dist)\<close>.\<close>

fun castFood ::
  "Simulation \<Rightarrow> Organism \<Rightarrow> int \<times> int \<Rightarrow> bool \<Rightarrow> int list \<Rightarrow> (int \<times> int \<times> int) option" where
  "castFood s org dir selfBlocked [] = None"
| "castFood s org dir selfBlocked (d # ds) =
     (case applyBoundary s (eyeX org + fst dir * d) (eyeY org + snd dir * d) of
        None \<Rightarrow> None
      | Some (x, y) \<Rightarrow>
          (let occupantId = grid s ! idx s x y in
           if occupantId = id_o org then castFood s org dir True ds
           else if selfBlocked then None
           else if occupantId = -2 then None
           else if occupantId = -1 then Some (fst dir, snd dir, d)
           else if occupantId > 0 then None
           else castFood s org dir selfBlocked ds))"

text \<open>The distances \<^verbatim>\<open>for (let d = 1; d <= org.viewRadius; d++)\<close>.\<close>

definition rayDistances :: "Organism \<Rightarrow> int list" where
  "rayDistances org = [1 .. \<lfloor>viewRadius org\<rfloor>]"

definition detectTargets :: "Simulation \<Rightarrow> Organism \<Rightarrow> (int \<times> nat \<times> int \<times> int \<times> int) list" where
  "detectTargets s org =
     List.map_filter (\<lambda>dir. castTarget s org dir False (rayDistances org)) DIRECTIONS"

definition detectFood :: "Simulation \<Rightarrow> Organism \<Rightarrow> (int \<times> int \<times> int) list" where
  "detectFood s org =
     List.map_filter (\<lambda>dir. castFood s org dir False (rayDistances org)) DIRECTIONS"

text \<open>The head of a list after a stable sort by distance: the first element whose
  distance is least.\<close>

fun nearest :: "('a \<Rightarrow> int) \<Rightarrow> 'a \<Rightarrow> 'a list \<Rightarrow> 'a" where
  "nearest dst best [] = best"
| "nearest dst best (x # xs) = nearest dst (if dst x < dst best then x else best) xs"

text \<open>\<^verbatim>\<open>chooseDirection(org)\<close>: the heading, and the state after the draws made and the
  reset of the stuck counter.\<close>

definition chooseDirection :: "Organism \<Rightarrow> Simulation \<Rightarrow> (int \<times> int) \<times> Simulation" where
  "chooseDirection org s =
     (let targets = detectTargets s org;
          foods = detectFood s org;
          orgSize = length (pixels org) in
      if energy org < reproductionThreshold (params s) * 0.3 \<and> foods \<noteq> []
      then (let (fx, fy, fd) = nearest (\<lambda>(fx, fy, fd). fd) (hd foods) (tl foods)
            in ((sgn fx, sgn fy), s))
      else if targets \<noteq> []
      then (let (tid, tsize, tx, ty, td) = nearest (\<lambda>(tid, tsize, tx, ty, td). td) (hd targets) (tl targets);
                dx = sgn tx; dy = sgn ty in
            if tsize < orgSize then ((dx, dy), s)
            else if tsize > orgSize then ((- dx, - dy), s)
            else (let (r, s1) = Math_random s in
                  if r < hunger org then ((dx, dy), s1) else ((- dx, - dy), s1)))
      else
        (let (viaFood, s1) =
               (if foods \<noteq> [] then (let (r, s1) = Math_random s in (r < hunger org, s1))
                else (False, s))
         in if viaFood
            then (let (fx, fy, fd) = nearest (\<lambda>(fx, fy, fd). fd) (hd foods) (tl foods)
                  in ((sgn fx, sgn fy), s1))
            else if hunger org > 0.2
            then (let (r, s2) = Math_random s1 in
                  if r < 0.1 \<or> stuckCounter org > 5
                  then randomDirection (updOrg (id_o org) (\<lambda>og. og\<lparr>stuckCounter := 0\<rparr>) s2)
                  else (direction org, s2))
            else (let (r, s2) = Math_random s1 in
                  if r < 0.3 then (direction org, s2) else ((0, 0), s2))))"

text \<open>The first loop of \<^verbatim>\<open>step\<close> for one organism.\<close>

definition planOrg :: "int \<Rightarrow> Simulation \<Rightarrow> Simulation" where
  "planOrg i s =
     (case getOrg s i of
        None \<Rightarrow> s
      | Some org \<Rightarrow>
          (let (dir, s1) = chooseDirection org s
           in updOrg i (\<lambda>og. og\<lparr>direction := dir, movedThisTick := False\<rparr>) s1))"

section \<open>Movement\<close>

record MoveState =
  org_m :: int
  dx_m :: int
  dy_m :: int
  stepCost :: real
  stepsRemaining :: int
  moved_m :: bool

type_synonym Proposal = "key \<times> key"

text \<open>The products of \<^verbatim>\<open>hash\<close> are products of doubles (they round from \<open>2^53\<close> on);
  \<^verbatim>\<open>^\<close> and \<^verbatim>\<open>>>> 0\<close> work on the low 32 bits of the integers they are.\<close>

definition hash :: "int \<Rightarrow> int \<Rightarrow> int \<Rightarrow> int \<Rightarrow> 32 word" where
  "hash tk x y i =
     word_of_int \<lfloor>fmul (of_int tk) 73856093\<rfloor> XOR word_of_int \<lfloor>fmul (of_int x) 19349663\<rfloor> XOR
     word_of_int \<lfloor>fmul (of_int y) 83492791\<rfloor> XOR word_of_int \<lfloor>fmul (of_int i) 50331653\<rfloor>"

definition INF_p :: "32 word" where
  "INF_p = 0x7fffffff"

text \<open>The step cost and the step budget \<^verbatim>\<open>actualSteps\<close> of an organism.\<close>

definition stepCostOf :: "Simulation \<Rightarrow> Organism \<Rightarrow> real" where
  "stepCostOf s org =
     max (max 1 (real (length (pixels org))) powr movementEnergyCostExponent (params s)
            * movementEnergyCostMultiplier (params s)) 0.001"

definition actualSteps :: "Simulation \<Rightarrow> Organism \<Rightarrow> int" where
  "actualSteps s org =
     (let energyReserve = max 0 (movementEnergyReserve (params s));
          availableEnergy = energy org - energyReserve;
          energyLimitedSteps =
            (if availableEnergy > 0 then \<lfloor>availableEnergy / stepCostOf s org\<rfloor> else 0);
          staminaSteps =
            \<lfloor>max 0 (stamina org) / max 0.0001 (staminaDrainPerStep (params s))\<rfloor>
      in min (moveSpeed org) (min energyLimitedSteps staminaSteps))"

definition initialMoveState :: "Simulation \<Rightarrow> Organism \<Rightarrow> MoveState" where
  "initialMoveState s org =
     \<lparr>org_m = id_o org, dx_m = fst (direction org), dy_m = snd (direction org),
      stepCost = stepCostOf s org, stepsRemaining = actualSteps s org, moved_m = False\<rparr>"

definition isMoving :: "MoveState \<Rightarrow> bool" where
  "isMoving st = (stepsRemaining st > 0 \<and> (dx_m st \<noteq> 0 \<or> dy_m st \<noteq> 0))"

definition priorityOf :: "Simulation \<Rightarrow> Organism \<Rightarrow> int \<Rightarrow> int \<Rightarrow> 32 word" where
  "priorityOf s og nx ny =
     push_bit 20 (word_of_int (moveSpeed og)) OR
     push_bit 10 (word_of_nat (length (pixels og))) OR
     (hash (tick s) nx ny (id_o og) AND 0x3ff)"

text \<open>The key under which \<^verbatim>\<open>sortByPriority\<close> orders organisms (the sort is stable).\<close>

definition sortKey :: "Simulation \<Rightarrow> Organism \<Rightarrow> int \<times> int \<times> int" where
  "sortKey s og =
     (- moveSpeed og, - int (length (pixels og)),
      uint (hash (tick s) (eyeX og) (eyeY og) (id_o og)))"

text \<open>The static reservations of a microstep.\<close>

definition stationaryStep ::
  "int list \<Rightarrow> Organism \<Rightarrow> (key \<times> Reservation) list \<Rightarrow> (key \<times> Reservation) list" where
  "stationaryStep ids og rs =
     (if id_o og \<in> set ids
      then fold (\<lambda>k. AList.update k \<lparr>id_r = id_o og, priority = INF_p\<rparr>) (map fst (pixels og)) rs
      else rs)"

definition staticReservations :: "Simulation \<Rightarrow> MoveState list \<Rightarrow> (key \<times> Reservation) list" where
  "staticReservations s sts =
     (let nonMovingIds = map org_m (filter (\<lambda>st. \<not> isMoving st) sts);
          r1 = fold (stationaryStep nonMovingIds) (organisms s) [];
          r2 = fold (\<lambda>k. AList.update k \<lparr>id_r = -1, priority = INF_p\<rparr>) (map fst (foodPixels s)) r1
      in fold (\<lambda>k. AList.update k \<lparr>id_r = -2, priority = INF_p\<rparr>) (obstacleKeys s) r2)"

text \<open>The moving organisms of a microstep with their move states, in priority order. The
  source keeps the organism objects and finds their states by id.\<close>

definition movingSorted :: "Simulation \<Rightarrow> MoveState list \<Rightarrow> (Organism \<times> MoveState) list" where
  "movingSorted s sts =
     sort_key (\<lambda>(og, st). sortKey s og)
       (List.map_filter
          (\<lambda>st. case getOrg s (org_m st) of Some og \<Rightarrow> Some (og, st) | None \<Rightarrow> None)
          (filter isMoving sts))"

text \<open>The proposals of one organism, cell by cell, until one is invalid: the proposals
  made so far and whether all were valid.\<close>

fun proposeCells ::
  "Simulation \<Rightarrow> Organism \<Rightarrow> int \<times> int \<Rightarrow> key list \<Rightarrow> Proposal list \<Rightarrow> Proposal list \<times> bool" where
  "proposeCells s og d [] acc = (acc, True)"
| "proposeCells s og d (k # ks) acc =
     (case applyBoundary s (fst k + fst d) (snd k + snd d) of
        None \<Rightarrow> (acc, False)
      | Some n \<Rightarrow>
          (let occ = grid s ! idx s (fst n) (snd n) in
           if occ \<noteq> 0 \<and> occ \<noteq> id_o og then (acc, False)
           else proposeCells s og d ks (acc @ [(k, n)])))"

definition contendersOf :: "(key \<times> (int \<times> 32 word) list) list \<Rightarrow> key \<Rightarrow> (int \<times> 32 word) list" where
  "contendersOf cm n = (case map_of cm n of None \<Rightarrow> [] | Some cs \<Rightarrow> cs)"

definition addContender ::
  "Simulation \<Rightarrow> Organism \<Rightarrow> Proposal \<Rightarrow> (key \<times> (int \<times> 32 word) list) list
     \<Rightarrow> (key \<times> (int \<times> 32 word) list) list" where
  "addContender s og p cm =
     (let n = snd p
      in AList.update n (contendersOf cm n @ [(id_o og, priorityOf s og (fst n) (snd n))]) cm)"

text \<open>The proposals of an organism under its heading.\<close>

definition proposalsOf :: "Simulation \<Rightarrow> Organism \<times> MoveState \<Rightarrow> Proposal list \<times> bool" where
  "proposalsOf s m =
     proposeCells s (fst m) (dx_m (snd m), dy_m (snd m)) (map fst (pixels (fst m))) []"

text \<open>\<open>proposalsByOrg\<close> and \<open>proposalCellMap\<close> after the proposal loop.\<close>

definition recordProposals ::
  "Simulation \<Rightarrow> Organism \<times> MoveState
     \<Rightarrow> (int \<times> Proposal list) list \<times> (key \<times> (int \<times> 32 word) list) list
     \<Rightarrow> (int \<times> Proposal list) list \<times> (key \<times> (int \<times> 32 word) list) list" where
  "recordProposals s m acc =
     (let (props, valid) = proposalsOf s m
      in (if valid then AList.update (id_o (fst m)) props (fst acc) else fst acc,
          fold (addContender s (fst m)) props (snd acc)))"

definition collectProposals ::
  "Simulation \<Rightarrow> (Organism \<times> MoveState) list
     \<Rightarrow> (int \<times> Proposal list) list \<times> (key \<times> (int \<times> 32 word) list) list" where
  "collectProposals s movers = fold (recordProposals s) movers ([], [])"

text \<open>The winner among the contenders of one cell: the loop over \<^verbatim>\<open>contenders\<close>.\<close>

definition betterThan :: "int \<times> 32 word \<Rightarrow> int \<times> 32 word \<Rightarrow> bool" where
  "betterThan c w = (sint (snd c) > sint (snd w) \<or> (snd c = snd w \<and> fst c > fst w))"

definition winnerStep :: "int \<times> 32 word \<Rightarrow> (int \<times> 32 word) option \<Rightarrow> (int \<times> 32 word) option" where
  "winnerStep c winner =
     (case winner of
        None \<Rightarrow> Some c
      | Some w \<Rightarrow> if betterThan c w then Some c else Some w)"

definition pickWinner :: "(int \<times> 32 word) list \<Rightarrow> (int \<times> 32 word) option" where
  "pickWinner contenders = fold winnerStep contenders None"

definition staticallyReserved :: "(key \<times> Reservation) list \<Rightarrow> key \<Rightarrow> bool" where
  "staticallyReserved res cell =
     (case map_of res cell of Some r \<Rightarrow> priority r = INF_p | None \<Rightarrow> False)"

definition winnersByCell ::
  "(key \<times> Reservation) list \<Rightarrow> (key \<times> (int \<times> 32 word) list) list \<Rightarrow> (key \<times> int) list" where
  "winnersByCell res cm =
     List.map_filter
       (\<lambda>(cell, contenders).
          if staticallyReserved res cell then None
          else (case pickWinner contenders of
                  None \<Rightarrow> None
                | Some w \<Rightarrow> Some (cell, fst w)))
       cm"

text \<open>The organisms all of whose proposals won, with their proposals.\<close>

definition decideCommits ::
  "Simulation \<Rightarrow> MoveState list \<Rightarrow> (Organism \<times> MoveState \<times> Proposal list) list" where
  "decideCommits s sts =
     (let res = staticReservations s sts;
          movers = movingSorted s sts;
          (byOrg, cm) = collectProposals s movers;
          winners = winnersByCell res cm
      in List.map_filter
           (\<lambda>(og, st).
              case map_of byOrg (id_o og) of
                None \<Rightarrow> None
              | Some props \<Rightarrow>
                  if length props \<noteq> length (pixels og) then None
                  else if list_all (\<lambda>p. map_of winners (snd p) = Some (id_o og)) props
                  then Some (og, st, props)
                  else None)
           movers)"

text \<open>Step 6-1: the source cells that are nobody's destination are cleared.\<close>

definition clearCell :: "nat list \<Rightarrow> key \<Rightarrow> Simulation \<Rightarrow> Simulation" where
  "clearCell destIdx k s =
     (let j = idx s (fst k) (snd k) in
      if j \<in> set destIdx then s
      else s\<lparr>grid := (grid s)[j := 0], pixelHP := (pixelHP s)[j := 0]\<rparr>)"

definition destIdxOf :: "Simulation \<Rightarrow> (Organism \<times> MoveState \<times> Proposal list) list \<Rightarrow> nat list" where
  "destIdxOf s commits =
     concat (map (\<lambda>c. map (\<lambda>p. idx s (fst (snd p)) (snd (snd p))) (snd (snd c))) commits)"

definition clearSources ::
  "(Organism \<times> MoveState \<times> Proposal list) list \<Rightarrow> Simulation \<Rightarrow> Simulation" where
  "clearSources commits s =
     fold (\<lambda>c. fold (clearCell (destIdxOf s commits)) (map fst (pixels (fst c)))) commits s"

text \<open>Step 6-2 for one commit. The source asserts that the new eye position is inside the
  grid (it would throw otherwise); it is whenever the eye is one of the pixels.\<close>

definition carriedHP :: "Organism \<Rightarrow> key \<Rightarrow> nat" where
  "carriedHP og k = (case map_of (pixels og) k of Some h \<Rightarrow> h | None \<Rightarrow> totalCells (genome og))"

definition writeCell :: "Organism \<Rightarrow> Proposal \<Rightarrow> Simulation \<Rightarrow> Simulation" where
  "writeCell og p s =
     (let j = idx s (fst (snd p)) (snd (snd p)) in
      s\<lparr>grid := (grid s)[j := id_o og],
        pixelHP := (pixelHP s)[j := word_of_nat (carriedHP og (fst p))]\<rparr>)"

definition movedPixels :: "Organism \<Rightarrow> Proposal list \<Rightarrow> (key \<times> nat) list" where
  "movedPixels og props = fold (\<lambda>p px. AList.update (snd p) (carriedHP og (fst p)) px) props []"

definition applyCommit :: "Organism \<times> MoveState \<times> Proposal list \<Rightarrow> Simulation \<Rightarrow> Simulation" where
  "applyCommit c s =
     (let (og, st, props) = c;
          s1 = fold (writeCell og) props s;
          eye = (case applyBoundary s (eyeX og + dx_m st) (eyeY og + dy_m st) of
                   Some b \<Rightarrow> b
                 | None \<Rightarrow> (eyeX og, eyeY og))
      in updOrg (id_o og)
           (\<lambda>o1. o1\<lparr>pixels := movedPixels og props, eyeX := fst eye, eyeY := snd eye,
                    energy := energy o1 - stepCost st,
                    stamina := max 0 (stamina o1 - staminaDrainPerStep (params s)),
                    movedThisTick := True\<rparr>)
           s1)"

text \<open>The move state of a committed organism: one step used, and it has moved.\<close>

definition decMoved :: "int \<Rightarrow> MoveState list \<Rightarrow> MoveState list" where
  "decMoved i sts =
     map (\<lambda>x. if org_m x = i
               then x\<lparr>stepsRemaining := stepsRemaining x - 1, moved_m := True\<rparr>
               else x) sts"

definition markMoved ::
  "(Organism \<times> MoveState \<times> Proposal list) list \<Rightarrow> MoveState list \<Rightarrow> MoveState list" where
  "markMoved commits sts = fold (\<lambda>c. decMoved (id_o (fst c))) commits sts"

text \<open>The microstep loop \<^verbatim>\<open>while (anyMoved)\<close>.\<close>

definition budgetLeft :: "MoveState list \<Rightarrow> nat" where
  "budgetLeft sts = sum_list (map (\<lambda>st. nat (stepsRemaining st)) sts)"

function moveLoop :: "Simulation \<Rightarrow> MoveState list \<Rightarrow> Simulation \<times> MoveState list" where
  "moveLoop s sts =
     (if filter isMoving sts = [] then (s, sts)
      else
        (let s0 = s\<lparr>reservations := staticReservations s sts\<rparr>;
             commits = decideCommits s sts in
         if commits = []
         then (s0\<lparr>debugCounters := (debugCounters s0)
                    \<lparr>starving := starving (debugCounters s0) + int (length (filter isMoving sts))\<rparr>\<rparr>,
               map (\<lambda>st. st\<lparr>stepsRemaining := 0\<rparr>) sts)
         else moveLoop (fold applyCommit commits (clearSources commits s0))
                (markMoved commits sts)))"
  by pat_completeness auto

lemma budgetLeft_dec_le: "budgetLeft (decMoved i sts) \<le> budgetLeft sts"
  unfolding budgetLeft_def decMoved_def by (induction sts) auto

lemma budgetLeft_dec_less:
  "st \<in> set sts \<Longrightarrow> org_m st = i \<Longrightarrow> stepsRemaining st > 0 \<Longrightarrow>
   budgetLeft (decMoved i sts) < budgetLeft sts"
proof (induction sts)
  case Nil
  then show ?case by simp
next
  case (Cons a sts)
  have le: "budgetLeft (decMoved i sts) \<le> budgetLeft sts" by (rule budgetLeft_dec_le)
  show ?case
  proof (cases "st = a")
    case True
    with Cons.prems le show ?thesis by (simp add: budgetLeft_def decMoved_def)
  next
    case False
    with Cons.prems have "st \<in> set sts" by simp
    from Cons.IH [OF this Cons.prems(2,3)] show ?thesis
      by (auto simp: budgetLeft_def decMoved_def)
  qed
qed

lemma markMoved_le: "budgetLeft (markMoved commits sts) \<le> budgetLeft sts"
  unfolding markMoved_def
proof (induction commits arbitrary: sts)
  case Nil
  then show ?case by simp
next
  case (Cons c commits)
  have "budgetLeft (fold (\<lambda>c. decMoved (id_o (fst c))) commits (decMoved (id_o (fst c)) sts))
          \<le> budgetLeft (decMoved (id_o (fst c)) sts)"
    by (rule Cons.IH)
  also have "\<dots> \<le> budgetLeft sts" by (rule budgetLeft_dec_le)
  finally show ?case by simp
qed

lemma set_map_filter:
  "y \<in> set (List.map_filter f xs) \<longleftrightarrow> (\<exists>x \<in> set xs. f x = Some y)"
  by (induction xs) (auto split: option.splits)

lemma movingSorted_mem:
  "(og, st) \<in> set (movingSorted s sts) \<Longrightarrow>
   st \<in> set sts \<and> isMoving st \<and> getOrg s (org_m st) = Some og"
  unfolding movingSorted_def
  by (auto simp: set_map_filter split: option.splits)

lemma decideCommits_mem:
  "(og, st, props) \<in> set (decideCommits s sts) \<Longrightarrow> (og, st) \<in> set (movingSorted s sts)"
  unfolding decideCommits_def Let_def
  by (auto simp: set_map_filter split: prod.splits option.splits if_splits)

lemma markMoved_less:
  assumes "decideCommits s sts \<noteq> []"
  shows "budgetLeft (markMoved (decideCommits s sts) sts) < budgetLeft sts"
proof -
  obtain c cs where d: "decideCommits s sts = c # cs"
    using assms by (cases "decideCommits s sts") auto
  obtain og st props where c: "c = (og, st, props)" by (cases c)
  from d c have "(og, st, props) \<in> set (decideCommits s sts)" by simp
  from movingSorted_mem [OF decideCommits_mem [OF this]]
  have st: "st \<in> set sts" "isMoving st" "getOrg s (org_m st) = Some og" by simp_all
  from st(3) have i: "org_m st = id_o og" using getOrg_Some by auto
  from st(2) have pos: "stepsRemaining st > 0" by (simp add: isMoving_def)
  let ?sts1 = "decMoved (id_o og) sts"
  have "markMoved (c # cs) sts = markMoved cs ?sts1"
    by (simp add: markMoved_def c)
  moreover have "budgetLeft (markMoved cs ?sts1) \<le> budgetLeft ?sts1" by (rule markMoved_le)
  moreover have "budgetLeft ?sts1 < budgetLeft sts"
    by (rule budgetLeft_dec_less [OF st(1) i pos])
  ultimately show ?thesis by (simp add: d)
qed

termination moveLoop
proof (relation "measure (\<lambda>(s, sts). budgetLeft sts)")
  show "wf (measure (\<lambda>(s, sts). budgetLeft sts))" by simp
next
  fix s :: Simulation and sts :: "MoveState list" and s0 commits
  assume "commits = decideCommits s sts" "commits \<noteq> []"
  then show "((fold applyCommit commits (clearSources commits s0), markMoved commits sts), s, sts)
               \<in> measure (\<lambda>(s, sts). budgetLeft sts)"
    using markMoved_less by simp
qed

declare moveLoop.simps [simp del]

definition recover :: "MoveState \<Rightarrow> Simulation \<Rightarrow> Simulation" where
  "recover st s =
     (if \<not> moved_m st \<or> (dx_m st = 0 \<and> dy_m st = 0)
      then updOrg (org_m st)
             (\<lambda>og. og\<lparr>stamina := min (staminaMax (params s))
                                    (stamina og + staminaRecoveryPerTick (params s))\<rparr>) s
      else s)"

definition moveOrganisms :: "Simulation \<Rightarrow> Simulation" where
  "moveOrganisms s =
     (let states = map (initialMoveState s) (organisms s);
          starvingCountInitial =
            length (filter (\<lambda>st. stepsRemaining st \<le> 0 \<and> (dx_m st \<noteq> 0 \<or> dy_m st \<noteq> 0)) states);
          (s1, states1) = moveLoop (s\<lparr>reservations := []\<rparr>) states;
          s2 = fold recover states1 s1
      in s2\<lparr>debugCounters := (debugCounters s2)
             \<lparr>moving := moving (debugCounters s2) + int (length (filter moved_m states1)),
              starving := starving (debugCounters s2) + int starvingCountInitial\<rparr>\<rparr>)"

section \<open>Reproduction\<close>

text \<open>The candidate offsets \<^verbatim>\<open>[Math.round(Math.cos(rad) * d), Math.round(Math.sin(rad) * d)]\<close>
  for \<open>d = 3..6\<close> and the angles 0, 45, .., 315 degrees, as the source computes them.\<close>

definition reproDirs :: "(int \<times> int) list" where
  "reproDirs =
     concat (map (\<lambda>(d, m). [(d, 0), (m, m), (0, d), (- m, m), (- d, 0), (- m, - m), (0, - d), (m, - m)])
               [(3, 2), (4, 3), (5, 4), (6, 4)])"

text \<open>The shuffle \<^verbatim>\<open>for (let i = dirs.length - 1; i > 0; i--)\<close>.\<close>

fun shuffleLoop :: "nat \<Rightarrow> (int \<times> int) list \<Rightarrow> Simulation \<Rightarrow> (int \<times> int) list \<times> Simulation" where
  "shuffleLoop 0 dirs s = (dirs, s)"
| "shuffleLoop (Suc i) dirs s =
     (let (r, s1) = Math_random s;
          j = nat \<lfloor>r * (real (Suc i) + 1)\<rfloor>
      in shuffleLoop i ((dirs[Suc i := dirs ! j])[j := dirs ! Suc i]) s1)"

definition mutateGenome :: "Genome \<Rightarrow> Simulation \<Rightarrow> Genome \<times> Simulation" where
  "mutateGenome g s =
     (let center = length (pattern g) div 2;
          (newPattern, s1) =
            fold (\<lambda>i (pat, st).
                    if i = center then (pat, st)
                    else (let (r, st1) = Math_random st in
                          if r < mutationRate (params s) then (pat[i := 1 - pat ! i], st1)
                          else (pat, st1)))
              [0 ..< length (pattern g)] (pattern g, s)
      in (\<lparr>pattern = newPattern, size_g = size_g g, totalCells = countCells newPattern\<rparr>, s1))"

text \<open>What follows a successful \<^verbatim>\<open>createOrganism\<close> in \<^verbatim>\<open>reproduce\<close>: the parent pays, the
  child gets its speed and hunger.\<close>

definition finishChild :: "Organism \<Rightarrow> int \<Rightarrow> Simulation \<Rightarrow> Simulation" where
  "finishChild parent child s =
     (let s1 = updOrg (id_o parent)
                 (\<lambda>og. og\<lparr>energy := energy og - reproductionThreshold (params s) * 0.6\<rparr>) s;
          (r1, s2) = Math_random s1;
          (newMoveSpeed, s3) =
            (if r1 < mutationRate (params s)
             then (let (r2, s3) = Math_random s2
                   in (moveSpeed parent + (if r2 > 0.5 then 1 else -1), s3))
             else (moveSpeed parent, s2));
          (r3, s4) = Math_random s3
      in updOrg child
           (\<lambda>og. og\<lparr>moveSpeed := max 1 newMoveSpeed,
                    hunger := max 0 (min 1 (hunger parent + (r3 - 0.5) * 0.3))\<rparr>) s4)"

fun tryDirs :: "int \<Rightarrow> (int \<times> int) list \<Rightarrow> Simulation \<Rightarrow> Simulation" where
  "tryDirs i [] s = s"
| "tryDirs i (d # ds) s =
     (case getOrg s i of
        None \<Rightarrow> s
      | Some org \<Rightarrow>
          (case applyBoundary s (eyeX org + fst d) (eyeY org + snd d) of
             None \<Rightarrow> tryDirs i ds s
           | Some n \<Rightarrow>
               (case mutateGenome (genome org) s of
                  (newGenome, s1) \<Rightarrow>
                    (case createOrganism (fst n) (snd n) (Some newGenome)
                            (Some (reproductionThreshold (params s) * 0.4)) s1 of
                       (None, s2) \<Rightarrow> tryDirs i ds s2
                     | (Some child, s2) \<Rightarrow> finishChild org (id_o child) s2))))"

definition reproduceOrg :: "int \<Rightarrow> Simulation \<Rightarrow> Simulation" where
  "reproduceOrg i s =
     (let (r, s1) = Math_random s in
      if r > 0.03 then s1
      else (let (dirs, s2) = shuffleLoop (length reproDirs - 1) reproDirs s1
            in tryDirs i dirs s2))"

definition reproduce :: "Simulation \<Rightarrow> Simulation" where
  "reproduce s =
     (let readyToReproduce =
            filter (\<lambda>og. energy og \<ge> reproductionThreshold (params s) \<and>
                         real (length (pixels og)) \<ge> real (totalCells (genome og)) * 0.8)
              (organisms s)
      in fold reproduceOrg (map id_o readyToReproduce) s)"

section \<open>The tick and the obstacle editor\<close>

definition growIfStill :: "int \<Rightarrow> Simulation \<Rightarrow> Simulation" where
  "growIfStill i s =
     (case getOrg s i of
        None \<Rightarrow> s
      | Some org \<Rightarrow> if \<not> movedThisTick org then snd (growOrganism i s) else s)"

definition step :: "Simulation \<Rightarrow> Simulation" where
  "step s =
     (let s1 = s\<lparr>tick := tick s + 1,
                debugCounters := \<lparr>moving = 0, growing = 0, attacking = 0, starving = 0\<rparr>\<rparr>;
          s2 = fold planOrg (map id_o (organisms s1)) s1;
          s3 = moveOrganisms s2;
          s4 = fold growIfStill (map id_o (organisms s3)) s3;
          s5 = combat s4;
          s6 = (if tick s5 mod 5 = 0 then spawnFood s5 else s5);
          s7 = absorbFood s6;
          s8 = metabolism s7;
          s9 = reproduce s8;
          s10 = updateFoodDecay s9
      in verifyAndSync s10)"

definition setObstacle :: "int \<Rightarrow> int \<Rightarrow> bool \<Rightarrow> Simulation \<Rightarrow> Simulation" where
  "setObstacle x y blocked s =
     (case applyBoundary s x y of
        None \<Rightarrow> s
      | Some k \<Rightarrow>
          (let j = idx s (fst k) (snd k) in
           if blocked
           then
             (if grid s ! j = -2 then s
              else
                (let occ = grid s ! j;
                     s1 = (if occ > 0
                           then (case getOrg s occ of
                                   Some org \<Rightarrow>
                                     checkConnectivity occ
                                       (updOrg occ (\<lambda>og. og\<lparr>pixels := AList.delete k (pixels og)\<rparr>) s)
                                 | None \<Rightarrow> s)
                           else if occ = -1
                           then s\<lparr>foodPixels := AList.delete k (foodPixels s)\<rparr>
                           else s)
                 in s1\<lparr>grid := (grid s1)[j := -2],
                       pixelHP := (pixelHP s1)[j := 0],
                       obstacleKeys := (if k \<in> set (obstacleKeys s1) then obstacleKeys s1
                                        else obstacleKeys s1 @ [k])\<rparr>))
           else
             (if grid s ! j \<noteq> -2 then s
              else s\<lparr>grid := (grid s)[j := 0],
                     pixelHP := (pixelHP s)[j := 0],
                     obstacleKeys := remove1 k (obstacleKeys s)\<rparr>)))"

section \<open>Construction and example states\<close>

definition DEFAULT_PARAMS :: SimulationParams where
  "DEFAULT_PARAMS = \<lparr>gridSize_p = 256, c2 = 100, foodSpawnRate = 0.03, mutationRate = 0.05,
     reproductionThreshold = 1000, initialOrganisms = 8, maxMoveSpeed = 3, viewRadius_p = 20,
     energyTransferRatio = 0.7, metabolismRate = 0.08, movementEnergyReserve = 20,
     movementEnergyCostMultiplier = 0.9, growthEnergyCost = 12, foodDecayTicks = 600,
     foodDecayReturnRatio = 1.0, attackEnergyCost = 0.5, absorbEnergyCost = 0.2,
     boundaryMode = Wrap, movementEnergyCostExponent = 0.95, staminaMax = 12,
     staminaRecoveryPerTick = 0.6, staminaDrainPerStep = 1, terrainEnabled = True,
     terrainObstacleDensity = 0.2, terrainSmoothingSteps = 4\<rparr>"

text \<open>The constructor's state when terrain generation is switched off.\<close>

definition emptySimulation :: "int \<Rightarrow> SimulationParams \<Rightarrow> (nat \<Rightarrow> real) \<Rightarrow> Simulation" where
  "emptySimulation n p rnd =
     \<lparr>gridSize = n, params = p, grid = replicate (nat (n * n)) 0,
      pixelHP = replicate (nat (n * n)) 0, organisms = [], foodPixels = [],
      reservations = [], obstacleKeys = [], nextID = 1, tick = 0, envEnergy = 2000,
      debugCounters = \<lparr>moving = 0, growing = 0, attacking = 0, starving = 0\<rparr>,
      randoms = rnd, randomPos = 0\<rparr>"

text \<open>A genome of one cell, and an empty 3x3 arena with closed borders.\<close>

definition dotGenome :: Genome where
  "dotGenome = \<lparr>pattern = [0, 0, 0, 0, 1, 0, 0, 0, 0], size_g = 3, totalCells = 1\<rparr>"

definition closed3 :: Simulation where
  "closed3 = emptySimulation 3 (DEFAULT_PARAMS\<lparr>boundaryMode := Closed\<rparr>) (\<lambda>_. 1 / 2)"

text \<open>An organism whose eye cell \<open>(1, 1)\<close> has just been removed: one cell is left.\<close>

definition headless :: Organism where
  "headless = \<lparr>id_o = 1, eyeX = 1, eyeY = 1, pixels = [((2, 1), 2)], energy = 400,
     moveSpeed = 1, viewRadius = 20, hunger = 1 / 2, direction = (0, 0),
     genome = \<lparr>pattern = [0, 0, 0, 0, 1, 1, 0, 0, 0], size_g = 3, totalCells = 2\<rparr>,
     growthStage = 1, speciesMask = 16, age = 0, stuckCounter = 0, stamina = 12,
     movedThisTick = False\<rparr>"

definition beheaded3 :: Simulation where
  "beheaded3 = closed3\<lparr>grid := [0, 0, 0, 0, 0, 1, 0, 0, 0],
     pixelHP := [0, 0, 0, 0, 0, 2, 0, 0, 0], organisms := [headless], nextID := 2\<rparr>"

text \<open>Two organisms of sizes 2 and 1 side by side (the second variant with an attacker
  too poor to pay the fee), and an organism next to a food cell.\<close>

definition duelBig :: Organism where
  "duelBig = \<lparr>id_o = 1, eyeX = 0, eyeY = 1, pixels = [((0, 1), 2), ((1, 1), 2)], energy = 400,
     moveSpeed = 1, viewRadius = 20, hunger = 1 / 2, direction = (0, 0),
     genome = \<lparr>pattern = [0, 0, 0, 0, 1, 1, 0, 0, 0], size_g = 3, totalCells = 2\<rparr>,
     growthStage = 1, speciesMask = 16, age = 0, stuckCounter = 0, stamina = 12,
     movedThisTick = False\<rparr>"

definition duelSmall :: Organism where
  "duelSmall = \<lparr>id_o = 2, eyeX = 2, eyeY = 1, pixels = [((2, 1), 1)], energy = 400,
     moveSpeed = 1, viewRadius = 20, hunger = 1 / 2, direction = (0, 0),
     genome = dotGenome,
     growthStage = 0, speciesMask = 0, age = 0, stuckCounter = 0, stamina = 12,
     movedThisTick = False\<rparr>"

definition duel3 :: Simulation where
  "duel3 = closed3\<lparr>grid := [0, 0, 0, 1, 1, 2, 0, 0, 0],
     pixelHP := [0, 0, 0, 2, 2, 1, 0, 0, 0], organisms := [duelBig, duelSmall], nextID := 3\<rparr>"


definition meal3 :: Simulation where
  "meal3 = closed3\<lparr>grid := [0, 0, 0, 0, -1, 2, 0, 0, 0],
     pixelHP := [0, 0, 0, 0, 1, 1, 0, 0, 0], organisms := [duelSmall],
     foodPixels := [((1, 1), 600)], nextID := 3\<rparr>"

text \<open>The order in which contenders are compared, and well-formed cell maps.\<close>

definition winKey :: "int \<times> 32 word \<Rightarrow> int \<times> int" where
  "winKey c = (sint (snd c), fst c)"

definition cellMapOk :: "(key \<times> (int \<times> 32 word) list) list \<Rightarrow> bool" where
  "cellMapOk cm = (distinct (map fst cm) \<and> (\<forall>e \<in> set cm. snd e \<noteq> []))"

text \<open>Two one-cell organisms heading for the same empty cell \<open>(1, 1)\<close>, and an obstacle.\<close>

definition moverA :: Organism where
  "moverA = \<lparr>id_o = 1, eyeX = 0, eyeY = 1, pixels = [((0, 1), 1)], energy = 400,
     moveSpeed = 1, viewRadius = 20, hunger = 1 / 2, direction = (1, 0),
     genome = dotGenome,
     growthStage = 0, speciesMask = 0, age = 0, stuckCounter = 0, stamina = 12,
     movedThisTick = False\<rparr>"

definition moverB :: Organism where
  "moverB = moverA\<lparr>id_o := 2, eyeX := 2, pixels := [((2, 1), 1)], direction := (-1, 0)\<rparr>"

definition clash3 :: Simulation where
  "clash3 = closed3\<lparr>grid := [0, 0, 0, 1, 0, 2, 0, 0, 0],
     pixelHP := [0, 0, 0, 1, 0, 1, 0, 0, 0], organisms := [moverA, moverB], nextID := 3,
     obstacleKeys := [(1, 2)]\<rparr>"

definition clashStates :: "MoveState list" where
  "clashStates =
     [\<lparr>org_m = 1, dx_m = 1, dy_m = 0, stepCost = 9 / 10, stepsRemaining = 1, moved_m = False\<rparr>,
      \<lparr>org_m = 2, dx_m = -1, dy_m = 0, stepCost = 9 / 10, stepsRemaining = 1, moved_m = False\<rparr>]"

text \<open>A cell inside the grid.\<close>

definition inBounds :: "Simulation \<Rightarrow> key \<Rightarrow> bool" where
  "inBounds s k = (0 \<le> fst k \<and> fst k < gridSize s \<and> 0 \<le> snd k \<and> snd k < gridSize s)"

text \<open>An arena without organisms, one tick before a food spawn, with a food lifetime of 5 ticks;
  and the same arena with one food cell whose countdown is \<open>ttl\<close>.\<close>

definition pantry3 :: Simulation where
  "pantry3 = (emptySimulation 3
      (DEFAULT_PARAMS\<lparr>boundaryMode := Closed, foodDecayTicks := 5, foodSpawnRate := 1\<rparr>)
      (\<lambda>_. 1 / 2))\<lparr>tick := 4, envEnergy := 150\<rparr>"

definition pantryFed :: "int \<Rightarrow> real \<Rightarrow> Simulation" where
  "pantryFed tk ttl = pantry3\<lparr>tick := tk, envEnergy := 50, grid := [0, 0, 0, 0, -1, 0, 0, 0, 0],
     pixelHP := [0, 0, 0, 0, 1, 0, 0, 0, 0], foodPixels := [((1, 1), ttl)], randomPos := 2\<rparr>"

text \<open>An organism before and after a phase that leaves its anchor, stamina, growth stage
  and genome alone.\<close>

definition stable :: "Organism \<Rightarrow> Organism \<Rightarrow> bool" where
  "stable og og' =
     (id_o og' = id_o og \<and> eyeX og' = eyeX og \<and> eyeY og' = eyeY og \<and>
      stamina og' = stamina og \<and> growthStage og' = growthStage og \<and> genome og' = genome og)"

text \<open>\<open>keeps R N s s'\<close>: the parameters are those of \<open>s\<close>, and every organism registered in
  \<open>s'\<close> is \<open>R\<close>-related to the organism registered under its id in \<open>s\<close>, or is new and
  satisfies \<open>N\<close>.\<close>

definition keeps ::
  "(Organism \<Rightarrow> Organism \<Rightarrow> bool) \<Rightarrow> (Organism \<Rightarrow> bool) \<Rightarrow> Simulation \<Rightarrow> Simulation \<Rightarrow> bool" where
  "keeps R N s s' =
     (params s' = params s \<and> gridSize s' = gridSize s \<and>
      (\<forall>i og'. getOrg s' i = Some og' \<longrightarrow> (\<exists>og. getOrg s i = Some og \<and> R og og') \<or> N og'))"

definition noNew :: "Organism \<Rightarrow> bool" where
  "noNew og = False"

text \<open>Relations that are reflexive and transitive, with the new organisms closed under
  them, compose along a phase.\<close>

definition composable :: "(Organism \<Rightarrow> Organism \<Rightarrow> bool) \<Rightarrow> (Organism \<Rightarrow> bool) \<Rightarrow> bool" where
  "composable R N =
     ((\<forall>a. R a a) \<and> (\<forall>a b c. R a b \<longrightarrow> R b c \<longrightarrow> R a c) \<and> (\<forall>a b. N a \<longrightarrow> R a b \<longrightarrow> N b))"

text \<open>A state that differs only in the position of the random source.\<close>

definition rndOnly :: "Simulation \<Rightarrow> Simulation \<Rightarrow> bool" where
  "rndOnly s s' = (\<exists>n. s' = s\<lparr>randomPos := n\<rparr>)"

text \<open>An organism before and after planning: only heading, moved flag and stuck counter
  may differ.\<close>

definition planned :: "Organism \<Rightarrow> Organism \<Rightarrow> bool" where
  "planned og og' =
     (stable og og' \<and> energy og' = energy og \<and> pixels og' = pixels og \<and>
      moveSpeed og' = moveSpeed og)"

text \<open>What a commit does to the organism object.\<close>

definition commitOrg :: "Simulation \<Rightarrow> Organism \<times> MoveState \<times> Proposal list \<Rightarrow> Organism \<Rightarrow> Organism" where
  "commitOrg s c = (\<lambda>o1.
      let og = fst c; st = fst (snd c);
          eye = (case applyBoundary s (eyeX og + dx_m st) (eyeY og + dy_m st) of
                   Some b \<Rightarrow> b
                 | None \<Rightarrow> (eyeX og, eyeY og))
      in o1\<lparr>pixels := movedPixels og (snd (snd c)), eyeX := fst eye, eyeY := snd eye,
            energy := energy o1 - stepCost st,
            stamina := max 0 (stamina o1 - staminaDrainPerStep (params s)),
            movedThisTick := True\<rparr>)"

text \<open>The duel with an energy constant of 10 and a transfer ratio of 0.06.\<close>

definition tithe3 :: Simulation where
  "tithe3 = duel3\<lparr>params := (params duel3)\<lparr>c2 := 10, energyTransferRatio := 3 / 50\<rparr>\<rparr>"

text \<open>A two-cell organism heading up, whose second cell would leave the closed arena, and
  a one-cell organism heading for the cell \<open>(1, 0)\<close> that the first cell of the other
  proposes; the movement cost exponent is 1. The same arena with the pixel map of the
  two-cell organism in the other order.\<close>

definition tornBig :: Organism where
  "tornBig = \<lparr>id_o = 1, eyeX = 1, eyeY = 1, pixels = [((1, 1), 2), ((0, 0), 2)], energy = 400,
     moveSpeed = 1, viewRadius = 20, hunger = 1 / 2, direction = (0, -1),
     genome = \<lparr>pattern = [1, 0, 0, 0, 1, 0, 0, 0, 0], size_g = 3, totalCells = 2\<rparr>,
     growthStage = 1, speciesMask = 1, age = 0, stuckCounter = 0, stamina = 12,
     movedThisTick = False\<rparr>"

definition loner :: Organism where
  "loner = moverA\<lparr>id_o := 2, eyeX := 2, eyeY := 0, pixels := [((2, 0), 1)], direction := (-1, 0)\<rparr>"

definition torn3 :: Simulation where
  "torn3 = closed3\<lparr>params := (params closed3)\<lparr>movementEnergyCostExponent := 1\<rparr>,
     grid := [1, 0, 2, 0, 1, 0, 0, 0, 0],
     pixelHP := [2, 0, 1, 0, 2, 0, 0, 0, 0], organisms := [tornBig, loner], nextID := 3\<rparr>"

definition tornFlipped3 :: Simulation where
  "tornFlipped3 = torn3\<lparr>organisms := [tornBig\<lparr>pixels := [((0, 0), 2), ((1, 1), 2)]\<rparr>, loner]\<rparr>"

definition tornStates :: "MoveState list" where
  "tornStates =
     [\<lparr>org_m = 1, dx_m = 0, dy_m = -1, stepCost = 9 / 5, stepsRemaining = 1, moved_m = False\<rparr>,
      \<lparr>org_m = 2, dx_m = -1, dy_m = 0, stepCost = 9 / 10, stepsRemaining = 1, moved_m = False\<rparr>]"

section \<open>Properties\<close>

declare bfsLoop.simps [simp del]

declare bitlen.simps [simp del]
declare genomeLoop.simps [simp del]

subsection \<open>Doubles: integers below \<open>2^53\<close> are exact\<close>

lemmas dbl = fadd_def fsub_def fmul_def fl_def expo_def rne_def pow2_def bitlen.simps Let_def

lemma bitlen_bounds: "0 < n \<Longrightarrow> 2 ^ (bitlen n - 1) \<le> n \<and> n < 2 ^ bitlen n"
proof (induction n rule: bitlen.induct)
  case (1 n)
  show ?case
  proof (cases "n div 2 = 0")
    case True
    with "1.prems" have "n = 1" by (simp add: div_eq_0_iff)
    then show ?thesis by (simp add: bitlen.simps)
  next
    case False
    then have pos: "0 < n div 2" by simp
    from "1.prems" have n0: "n \<noteq> 0" by simp
    from "1.IH" [OF n0 pos] have
      lo: "2 ^ (bitlen (n div 2) - 1) \<le> n div 2" and hi: "n div 2 < 2 ^ bitlen (n div 2)"
      by simp_all
    from hi pos have "bitlen (n div 2) \<noteq> 0" by (cases "bitlen (n div 2)") auto
    then have b1: "bitlen (n div 2) = Suc (bitlen (n div 2) - 1)" by simp
    have eq: "bitlen n = Suc (bitlen (n div 2))" using n0 by (subst bitlen.simps) simp
    have "(2::nat) ^ bitlen (n div 2) = 2 * 2 ^ (bitlen (n div 2) - 1)"
      by (subst b1) simp
    also have "\<dots> \<le> 2 * (n div 2)" using lo by simp
    also have "\<dots> \<le> n" by simp
    finally have l: "2 ^ (bitlen n - 1) \<le> n" by (simp add: eq)
    from hi have "n div 2 + 1 \<le> 2 ^ bitlen (n div 2)" by simp
    then have "2 * (n div 2) + 2 \<le> 2 * 2 ^ bitlen (n div 2)" by simp
    moreover have "n < 2 * (n div 2) + 2" by arith
    ultimately have "n < 2 ^ bitlen n" by (simp add: eq)
    with l show ?thesis by simp
  qed
qed

lemma rne_int [simp]: "rne (of_int m) = m"
  by (simp add: rne_def)

text \<open>An integer below \<open>2^53\<close> in magnitude is a double.\<close>

lemma fl_int:
  assumes "\<bar>n\<bar> < 2 ^ 53"
  shows "fl (of_int n) = of_int n"
proof (cases "n = 0")
  case True
  then show ?thesis by (simp add: fl_def)
next
  case False
  let ?m = "nat \<bar>n\<bar>"
  let ?b = "bitlen ?m"
  from False have mpos: "0 < ?m" by simp
  from bitlen_bounds [OF mpos] have lo: "2 ^ (?b - 1) \<le> ?m" and hi: "?m < 2 ^ ?b" by simp_all
  from assms have "?m < 2 ^ 53" by (simp add: nat_less_iff)
  with lo have "(2::nat) ^ (?b - 1) < 2 ^ 53" by (rule le_less_trans)
  then have "?b - 1 < 53" by (simp only: power_strict_increasing_iff [of 2]) 
  then have b53: "?b \<le> 53" by simp
  have bpos: "0 < ?b" using hi mpos by (cases "?b") simp_all
  have "1 \<le> \<bar>n\<bar>" using False by arith
  then have "real_of_int 1 \<le> real_of_int \<bar>n\<bar>" by (simp only: of_int_le_iff)
  then have a1: "\<bar>real_of_int n\<bar> \<ge> 1" by simp
  have fl_a: "nat \<lfloor>\<bar>real_of_int n\<bar>\<rfloor> = ?m" by (simp flip: of_int_abs)
  have ex: "expo (of_int n) = int ?b - 1"
    using a1 by (simp add: expo_def Let_def fl_a)
  let ?k = "53 - ?b"
  have u: "pow2 (expo (of_int n) - 52) = 1 / 2 ^ ?k"
  proof (cases "?b = 53")
    case True
    then show ?thesis by (simp add: ex pow2_def)
  next
    case False
    with b53 have lt: "?b < 53" by simp
    then have "nat (- (int ?b - 1 - 52)) = ?k" by simp
    with lt show ?thesis by (simp add: ex pow2_def)
  qed
  have "real_of_int n / (1 / 2 ^ ?k) = of_int (n * 2 ^ ?k)" by simp
  then have "rne (real_of_int n / (1 / 2 ^ ?k)) = n * 2 ^ ?k" by (simp only: rne_int)
  then show ?thesis using False by (simp add: fl_def Let_def u)
qed

lemma fmul_int:
  assumes "\<bar>a\<bar> < 2 ^ 53" "\<bar>b\<bar> < 2 ^ 53" "\<bar>a * b\<bar> < 2 ^ 53"
  shows "fmul (of_int a) (of_int b) = of_int (a * b)"
proof -
  have "fl (of_int a * of_int b) = fl (of_int (a * b))" by simp
  then show ?thesis
    unfolding fmul_def fl_int [OF assms(1)] fl_int [OF assms(2)] using fl_int [OF assms(3)] by simp
qed

text \<open>Below \<open>2^53\<close> the products of \<^verbatim>\<open>hash\<close> are exact.\<close>

lemma hash_exact:
  assumes "\<bar>tk\<bar> < 67108864" "\<bar>x\<bar> < 67108864" "\<bar>y\<bar> < 67108864" "\<bar>i\<bar> < 67108864"
  shows "hash tk x y i =
     word_of_int (tk * 73856093) XOR word_of_int (x * 19349663) XOR
     word_of_int (y * 83492791) XOR word_of_int (i * 50331653)"
proof -
  have p: "\<bar>a * c\<bar> < 2 ^ 53" if "\<bar>a\<bar> < 67108864" "\<bar>c\<bar> < 134217728" for a c :: int
  proof -
    have "\<bar>a * c\<bar> = \<bar>a\<bar> * \<bar>c\<bar>" by (simp add: abs_mult)
    also have "\<dots> < 67108864 * 134217728"
      using that by (intro mult_strict_mono) simp_all
    also have "\<dots> = 2 ^ 53" by simp
    finally show ?thesis .
  qed
  have s: "\<bar>a\<bar> < 2 ^ 53" if "\<bar>a\<bar> < 134217728" for a :: int
    using that by simp
  have m: "\<lfloor>fmul (of_int a) (of_int c)\<rfloor> = a * c" if "\<bar>a\<bar> < 67108864" "\<bar>c\<bar> < 134217728" for a c :: int
  proof -
    from that(1) have "\<bar>a\<bar> < 134217728" by simp
    from fmul_int [OF s [OF this] s [OF that(2)] p [OF that]]
    have "\<lfloor>fmul (of_int a) (of_int c)\<rfloor> = \<lfloor>real_of_int (a * c)\<rfloor>" by (simp only:)
    then show ?thesis by (simp only: floor_of_int)
  qed
  from m [OF assms(1), of 73856093] m [OF assms(2), of 19349663]
    m [OF assms(3), of 83492791] m [OF assms(4), of 50331653]
  show ?thesis by (simp add: hash_def)
qed

lemma hash_code [code]:
  "hash tk x y i =
     (if \<bar>tk\<bar> < 67108864 \<and> \<bar>x\<bar> < 67108864 \<and> \<bar>y\<bar> < 67108864 \<and> \<bar>i\<bar> < 67108864
      then word_of_int (tk * 73856093) XOR word_of_int (x * 19349663) XOR
           word_of_int (y * 83492791) XOR word_of_int (i * 50331653)
      else word_of_int \<lfloor>fmul (of_int tk) 73856093\<rfloor> XOR
           word_of_int \<lfloor>fmul (of_int x) 19349663\<rfloor> XOR
           word_of_int \<lfloor>fmul (of_int y) 83492791\<rfloor> XOR
           word_of_int \<lfloor>fmul (of_int i) 50331653\<rfloor>)"
  by (simp add: hash_exact) (simp add: hash_def)

lemma hash_example: "hash 200000001 3 4 5 = 1181110596"
  by (simp add: hash_def dbl)

lemma hash_small: "hash 0 1 0 1 = 36126874"
  by code_simp

subsection \<open>The random source is the only state a draw changes\<close>

lemma genomeFill_randomPos:
  "genomeFill cc ns (pat, placed, queue, visited, s) = (pat', placed', queue', visited', s')
   \<Longrightarrow> \<exists>n. s' = s\<lparr>randomPos := n\<rparr>"
proof (induction ns arbitrary: pat placed queue visited s)
  case Nil
  then have "s' = s\<lparr>randomPos := randomPos s\<rparr>" by simp
  then show ?case by blast
next
  case (Cons n ns)
  show ?case
  proof (cases "placed \<ge> cc")
    case True
    with Cons.prems have "s' = s\<lparr>randomPos := randomPos s\<rparr>" by simp
    then show ?thesis by blast
  next
    case False
    let ?s1 = "s\<lparr>randomPos := Suc (randomPos s)\<rparr>"
    from False Cons.prems obtain p1 pl1 q1 v1 where
      "genomeFill cc ns (p1, pl1, q1, v1, ?s1) = (pat', placed', queue', visited', s')"
      by (auto simp: Math_random_def split: if_splits)
    from Cons.IH [OF this] obtain n where "s' = ?s1\<lparr>randomPos := n\<rparr>" by blast
    then have "s' = s\<lparr>randomPos := n\<rparr>" by simp
    then show ?thesis by blast
  qed
qed

lemma genomeLoop_randomPos:
  "genomeLoop cc st = (pat', s') \<Longrightarrow> \<exists>n. s' = (snd (snd (snd (snd st))))\<lparr>randomPos := n\<rparr>"
proof (induction cc st rule: genomeLoop.induct)
  case (1 cellCount pat placed queue visited s)
  show ?case
  proof (cases "placed < cellCount \<and> queue \<noteq> []")
    case True
    obtain p1 pl1 q1 v1 s1 where
      f: "genomeFill cellCount (genomeNeighbors (hd queue) visited)
            (pat, placed, tl queue, visited, s) = (p1, pl1, q1, v1, s1)"
      by (metis prod_cases5)
    from genomeFill_randomPos [OF f] obtain n where n: "s1 = s\<lparr>randomPos := n\<rparr>" by blast
    from "1.prems" True f have "genomeLoop cellCount (p1, pl1, q1, v1, s1) = (pat', s')"
      by (simp add: genomeLoop.simps)
    with "1.IH" [OF True] f obtain m where "s' = s1\<lparr>randomPos := m\<rparr>" by auto
    with n have "s' = s\<lparr>randomPos := m\<rparr>" by simp
    then show ?thesis by auto
  next
    case False
    with "1.prems" have "s' = s\<lparr>randomPos := randomPos s\<rparr>"
      by (simp add: genomeLoop.simps)
    then have "\<exists>n. s' = s\<lparr>randomPos := n\<rparr>" by (rule exI)
    then show ?thesis by simp
  qed
qed

lemma generateGenome_randomPos:
  "generateGenome s = (g, s') \<Longrightarrow> \<exists>n. s' = s\<lparr>randomPos := n\<rparr>"
proof -
  assume a: "generateGenome s = (g, s')"
  let ?s1 = "s\<lparr>randomPos := Suc (randomPos s)\<rparr>"
  from a obtain cc p0 pat where "genomeLoop cc (p0, 1, [24], [24], ?s1) = (pat, s')"
    by (auto simp: generateGenome_def Math_random_def Let_def
          split: prod.splits)
  from genomeLoop_randomPos [OF this] obtain n where "s' = ?s1\<lparr>randomPos := n\<rparr>" by auto
  then have "s' = s\<lparr>randomPos := n\<rparr>" by simp
  then show ?thesis by blast
qed

subsection \<open>C4: creating an organism\<close>

text \<open>
  C4 (as amended). \<^verbatim>\<open>createOrganism(x, y, genome, energy)\<close> returns null, leaving the
  whole state unchanged, exactly when the target is outside the grid (closed borders; with
  wrapping borders the target is wrapped and never outside) or the target or one of its
  neighbours \<^emph>\<open>that lie inside the grid\<close> is non-empty: a neighbour outside the grid is
  skipped by the scan, it does not block. Otherwise the new organism has the next id, one
  pixel at the target, the grid holds its id there and nowhere else anything new, the
  hit-point cell holds the genome's \<^verbatim>\<open>totalCells\<close> (as a 16-bit value), and the organism
  is appended to the registry.
\<close>

theorem createOrganism_result:
  assumes "createOrganism x y genomeArg energyArg s = (r, s')"
  shows "((r = None) =
            (applyBoundary s x y = None \<or>
             (\<exists>ex ey dx dy nx ny. applyBoundary s x y = Some (ex, ey) \<and> (dx, dy) \<in> set offsets9 \<and>
                applyBoundary s (ex + dx) (ey + dy) = Some (nx, ny) \<and> grid s ! idx s nx ny \<noteq> 0)))
         \<and> (r = None \<longrightarrow> s' = s)
         \<and> (\<forall>org. r = Some org \<longrightarrow>
               applyBoundary s x y = Some (eyeX org, eyeY org) \<and>
               id_o org = nextID s \<and>
               pixels org = [((eyeX org, eyeY org), totalCells (genome org))] \<and>
               (\<forall>g. genomeArg = Some g \<longrightarrow> genome org = g) \<and>
               grid s' = (grid s)[idx s (eyeX org) (eyeY org) := id_o org] \<and>
               pixelHP s' = (pixelHP s)[idx s (eyeX org) (eyeY org) :=
                                         word_of_nat (totalCells (genome org))] \<and>
               organisms s' = organisms s @ [org])"
proof (cases "applyBoundary s x y")
  case None
  with assms show ?thesis by (simp add: createOrganism_def)
next
  case (Some e)
  obtain ex ey where e: "e = (ex, ey)" by (cases e)
  have blocked: "spawnBlocked s ex ey =
     (\<exists>dx dy nx ny. (dx, dy) \<in> set offsets9 \<and>
        applyBoundary s (ex + dx) (ey + dy) = Some (nx, ny) \<and> grid s ! idx s nx ny \<noteq> 0)"
    unfolding spawnBlocked_def list_ex_iff
    by (fastforce split: option.splits)
  show ?thesis
  proof (cases "spawnBlocked s ex ey")
    case True
    with assms Some e have "r = None" "s' = s" by (simp_all add: createOrganism_def)
    with True Some e blocked show ?thesis by auto
  next
    case False
    let ?s1 = "s\<lparr>nextID := nextID s + 1\<rparr>"
    obtain gen s2 where g: "(case genomeArg of Some g \<Rightarrow> (g, ?s1) | None \<Rightarrow> generateGenome ?s1) = (gen, s2)"
      by (cases "case genomeArg of Some g \<Rightarrow> (g, ?s1) | None \<Rightarrow> generateGenome ?s1")
    have "\<exists>n. s2 = ?s1\<lparr>randomPos := n\<rparr>"
    proof (cases genomeArg)
      case None
      with g show ?thesis using generateGenome_randomPos by simp
    next
      case (Some a)
      with g have "s2 = ?s1\<lparr>randomPos := randomPos ?s1\<rparr>" by simp
      then show ?thesis by blast
    qed
    then obtain n where s2: "s2 = ?s1\<lparr>randomPos := n\<rparr>" by blast
    have gen: "\<forall>g. genomeArg = Some g \<longrightarrow> gen = g" using g by auto
    from assms Some e False g s2 obtain org where
      r: "r = Some org" and
      o: "eyeX org = ex" "eyeY org = ey" "id_o org = nextID s" "genome org = gen"
         "pixels org = [((ex, ey), totalCells gen)]" and
      s': "grid s' = (grid s)[idx s ex ey := nextID s]"
          "pixelHP s' = (pixelHP s)[idx s ex ey := word_of_nat (totalCells gen)]"
          "organisms s' = organisms s @ [org]"
      by (auto simp: createOrganism_def Let_def Math_random_def randomDirection_def idx_def
               split: prod.splits)
    from r o s' gen Some e False blocked show ?thesis by auto
  qed
qed

theorem createOrganism_result_witness:
  "(\<exists>org s'. createOrganism 1 1 (Some dotGenome) (Some 400) closed3 = (Some org, s') \<and>
       id_o org = 1 \<and> pixels org = [((1, 1), 1)] \<and>
       grid s' = [0, 0, 0, 0, 1, 0, 0, 0, 0] \<and> pixelHP s' = [0, 0, 0, 0, 1, 0, 0, 0, 0] \<and>
       organisms s' = [org])
   \<and> createOrganism 5 5 (Some dotGenome) (Some 400) closed3 = (None, closed3)"
proof -
  obtain r s' where eq: "createOrganism 1 1 (Some dotGenome) (Some 400) closed3 = (r, s')"
    by (cases "createOrganism 1 1 (Some dotGenome) (Some 400) closed3")
  have b: "applyBoundary closed3 1 1 = Some (1, 1)"
    by (simp add: closed3_def emptySimulation_def applyBoundary_def boundX_def boundY_def)
  have free: "\<not> (\<exists>ex ey dx dy nx ny. applyBoundary closed3 1 1 = Some (ex, ey) \<and>
                 (dx, dy) \<in> set offsets9 \<and>
                 applyBoundary closed3 (ex + dx) (ey + dy) = Some (nx, ny) \<and>
                 grid closed3 ! idx closed3 nx ny \<noteq> 0)"
    by (auto simp: b offsets9_def closed3_def emptySimulation_def applyBoundary_def boundX_def
          boundY_def idx_def)
  from createOrganism_result [OF eq] b free obtain org where
    o: "r = Some org" "eyeX org = 1" "eyeY org = 1" "id_o org = nextID closed3"
       "pixels org = [((eyeX org, eyeY org), totalCells (genome org))]"
       "genome org = dotGenome"
       "grid s' = (grid closed3)[idx closed3 (eyeX org) (eyeY org) := id_o org]"
       "pixelHP s' = (pixelHP closed3)[idx closed3 (eyeX org) (eyeY org) :=
                        word_of_nat (totalCells (genome org))]"
       "organisms s' = organisms closed3 @ [org]"
    by (cases r) auto
  from o have "id_o org = 1" "pixels org = [((1, 1), 1)]"
    "grid s' = [0, 0, 0, 0, 1, 0, 0, 0, 0]" "pixelHP s' = [0, 0, 0, 0, 1, 0, 0, 0, 0]"
    "organisms s' = [org]"
    by (simp_all add: closed3_def emptySimulation_def dotGenome_def idx_def eval_nat_numeral)
  with eq o(1) have first: "\<exists>org s'. createOrganism 1 1 (Some dotGenome) (Some 400) closed3 = (Some org, s') \<and>
       id_o org = 1 \<and> pixels org = [((1, 1), 1)] \<and>
       grid s' = [0, 0, 0, 0, 1, 0, 0, 0, 0] \<and> pixelHP s' = [0, 0, 0, 0, 1, 0, 0, 0, 0] \<and>
       organisms s' = [org]"
    by blast
  obtain r2 s2 where eq2: "createOrganism 5 5 (Some dotGenome) (Some 400) closed3 = (r2, s2)"
    by (cases "createOrganism 5 5 (Some dotGenome) (Some 400) closed3")
  have b2: "applyBoundary closed3 5 5 = None"
    by (simp add: closed3_def emptySimulation_def DEFAULT_PARAMS_def applyBoundary_def
          boundX_def boundY_def)
  from createOrganism_result [OF eq2] b2 have "r2 = None" "s2 = closed3" by auto
  with eq2 first show ?thesis by simp
qed

theorem createOrganism_edge_counterexample:
  "(-1, -1) \<in> set offsets8 \<and> applyBoundary closed3 (0 + (-1)) (0 + (-1)) = None \<and>
   fst (createOrganism 0 0 (Some dotGenome) (Some 400) closed3) \<noteq> None"
  by (simp add: closed3_def emptySimulation_def DEFAULT_PARAMS_def createOrganism_def
        applyBoundary_def boundX_def boundY_def spawnBlocked_def offsets9_def offsets8_def
        idx_def Math_random_def randomDirection_def Let_def)

subsection \<open>Cells turned into food\<close>

lemma makeFood_frame [simp]:
  "organisms (makeFood k s) = organisms s"
  "gridSize (makeFood k s) = gridSize s"
  "params (makeFood k s) = params s"
  "envEnergy (makeFood k s) = envEnergy s"
  "nextID (makeFood k s) = nextID s"
  "tick (makeFood k s) = tick s"
  "length (grid (makeFood k s)) = length (grid s)"
  "length (pixelHP (makeFood k s)) = length (pixelHP s)"
  by (simp_all add: makeFood_def Let_def)

lemma fold_makeFood_frame [simp]:
  "organisms (fold makeFood ks s) = organisms s"
  "gridSize (fold makeFood ks s) = gridSize s"
  "params (fold makeFood ks s) = params s"
  "envEnergy (fold makeFood ks s) = envEnergy s"
  "nextID (fold makeFood ks s) = nextID s"
  "tick (fold makeFood ks s) = tick s"
  "length (grid (fold makeFood ks s)) = length (grid s)"
  "length (pixelHP (fold makeFood ks s)) = length (pixelHP s)"
  by (induction ks arbitrary: s; simp)+

lemma idx_cong: "gridSize s' = gridSize s \<Longrightarrow> idx s' x y = idx s x y"
  by (simp add: idx_def)

lemma makeFood_nth:
  "j < length (grid s) \<Longrightarrow>
     grid (makeFood k s) ! j = (if j = idx s (fst k) (snd k) then -1 else grid s ! j)"
  "j < length (pixelHP s) \<Longrightarrow>
     pixelHP (makeFood k s) ! j = (if j = idx s (fst k) (snd k) then 1 else pixelHP s ! j)"
  by (simp_all add: makeFood_def Let_def nth_list_update)

lemma idx_makeFood [simp]: "idx (makeFood k s) x y = idx s x y"
  by (simp add: idx_def)

lemma fold_makeFood_grid:
  "j < length (grid s) \<Longrightarrow>
   grid (fold makeFood ks s) ! j =
     (if j \<in> (\<lambda>k. idx s (fst k) (snd k)) ` set ks then -1 else grid s ! j)"
proof (induction ks arbitrary: s)
  case Nil
  then show ?case by simp
next
  case (Cons k ks)
  from Cons.prems have "j < length (grid (makeFood k s))" by simp
  from Cons.IH [OF this] Cons.prems show ?case
    by (simp add: makeFood_nth)
qed

lemma fold_makeFood_pixelHP:
  "j < length (pixelHP s) \<Longrightarrow>
   pixelHP (fold makeFood ks s) ! j =
     (if j \<in> (\<lambda>k. idx s (fst k) (snd k)) ` set ks then 1 else pixelHP s ! j)"
proof (induction ks arbitrary: s)
  case Nil
  then show ?case by simp
next
  case (Cons k ks)
  from Cons.prems have "j < length (pixelHP (makeFood k s))" by simp
  from Cons.IH [OF this] Cons.prems show ?case
    by (simp add: makeFood_nth)
qed

lemma fold_makeFood_food:
  "map_of (foodPixels (fold makeFood ks s)) k =
     (if k \<in> set ks then Some (foodDecayTicks (params s)) else map_of (foodPixels s) k)"
proof (induction ks arbitrary: s)
  case Nil
  then show ?case by simp
next
  case (Cons a ks)
  show ?case
    by (simp add: Cons.IH) (simp add: makeFood_def Let_def update_conv')
qed

lemma getOrg_deleteOrg [simp]: "getOrg (deleteOrg i s) i = None"
  by (simp add: getOrg_def deleteOrg_def find_None_iff)

lemma removeOrganism_eq:
  "getOrg s i = Some org \<Longrightarrow>
   removeOrganism i s = deleteOrg i (fold makeFood (map fst (pixels org)) s)"
  by (simp add: removeOrganism_def)

subsection \<open>C8: an organism without its eye is destroyed\<close>

text \<open>
  C8. When the connectivity check of a registered organism finds its pixel map empty or
  its eye cell missing from it, the organism is destroyed: it leaves the registry (no
  other organism does), and every cell that was left in its pixel map is a food cell
  afterwards: grid code \<open>-1\<close>, hit-points 1, decay timer \<^verbatim>\<open>foodDecayTicks\<close>.
\<close>

theorem checkConnectivity_destroys:
  assumes "getOrg s i = Some org"
    and "length (pixels org) = 0 \<or> \<not> hasKey (eyeX org, eyeY org) (pixels org)"
  shows "getOrg (checkConnectivity i s) i = None \<and>
         organisms (checkConnectivity i s) = filter (\<lambda>og. id_o og \<noteq> i) (organisms s) \<and>
         (\<forall>k \<in> fst ` set (pixels org).
            map_of (foodPixels (checkConnectivity i s)) k = Some (foodDecayTicks (params s)) \<and>
            (idx s (fst k) (snd k) < length (grid s) \<longrightarrow>
               grid (checkConnectivity i s) ! idx s (fst k) (snd k) = -1) \<and>
            (idx s (fst k) (snd k) < length (pixelHP s) \<longrightarrow>
               pixelHP (checkConnectivity i s) ! idx s (fst k) (snd k) = 1))"
proof -
  let ?s' = "deleteOrg i (fold makeFood (map fst (pixels org)) s)"
  from assms have eq: "checkConnectivity i s = ?s'"
    by (auto simp: checkConnectivity_def removeOrganism_eq Let_def)
  have g: "grid ?s' = grid (fold makeFood (map fst (pixels org)) s)"
    and h: "pixelHP ?s' = pixelHP (fold makeFood (map fst (pixels org)) s)"
    and f: "foodPixels ?s' = foodPixels (fold makeFood (map fst (pixels org)) s)"
    and r: "organisms ?s' = filter (\<lambda>og. id_o og \<noteq> i) (organisms s)"
    by (simp_all add: deleteOrg_def)
  show ?thesis
    unfolding eq
    by (auto simp: g h f r fold_makeFood_grid fold_makeFood_pixelHP fold_makeFood_food)
qed

theorem checkConnectivity_destroys_witness:
  "getOrg beheaded3 1 = Some headless \<and>
   \<not> hasKey (eyeX headless, eyeY headless) (pixels headless) \<and>
   organisms (checkConnectivity 1 beheaded3) = [] \<and>
   map_of (foodPixels (checkConnectivity 1 beheaded3)) (2, 1) = Some 600 \<and>
   grid (checkConnectivity 1 beheaded3) ! 5 = -1 \<and>
   pixelHP (checkConnectivity 1 beheaded3) ! 5 = 1"
proof -
  have a: "getOrg beheaded3 1 = Some headless"
    by (simp add: getOrg_def beheaded3_def headless_def)
  have b: "\<not> hasKey (eyeX headless, eyeY headless) (pixels headless)"
    by (simp add: hasKey_def headless_def)
  have k: "(2, 1) \<in> fst ` set (pixels headless)"
    by (simp add: headless_def)
  have i: "idx beheaded3 2 1 = 5" "length (grid beheaded3) = 9" "length (pixelHP beheaded3) = 9"
    "foodDecayTicks (params beheaded3) = 600"
    "filter (\<lambda>og. id_o og \<noteq> 1) (organisms beheaded3) = []"
    by (simp_all add: idx_def beheaded3_def closed3_def emptySimulation_def DEFAULT_PARAMS_def
          headless_def)
  from checkConnectivity_destroys [OF a disjI2 [OF b]] k i a b show ?thesis
    by fastforce
qed

subsection \<open>Registry lookups and what the connectivity check leaves alone\<close>

lemma find_map_upd:
  "(\<And>og. id_o (f og) = id_o og) \<Longrightarrow>
   find (\<lambda>og. id_o og = j) (map (\<lambda>og. if id_o og = i then f og else og) xs) =
     (if j = i then map_option f (find (\<lambda>og. id_o og = i) xs) else find (\<lambda>og. id_o og = j) xs)"
  by (induction xs) auto

lemma getOrg_updOrg:
  "(\<And>og. id_o (f og) = id_o og) \<Longrightarrow>
   getOrg (updOrg i f s) j = (if j = i then map_option f (getOrg s i) else getOrg s j)"
  unfolding getOrg_def updOrg_def by (simp add: find_map_upd)

lemma find_filter_other:
  "find (\<lambda>og. id_o og = j) (filter (\<lambda>og. id_o og \<noteq> i) xs) =
     (if j = i then None else find (\<lambda>og. id_o og = j) xs)"
  by (induction xs) auto

lemma getOrg_deleteOrg_other: "getOrg (deleteOrg i s) j = (if j = i then None else getOrg s j)"
  unfolding getOrg_def deleteOrg_def by (simp add: find_filter_other)

lemma updOrg_frame [simp]:
  "gridSize (updOrg i f s) = gridSize s"
  "params (updOrg i f s) = params s"
  "grid (updOrg i f s) = grid s"
  "pixelHP (updOrg i f s) = pixelHP s"
  "foodPixels (updOrg i f s) = foodPixels s"
  "envEnergy (updOrg i f s) = envEnergy s"
  "nextID (updOrg i f s) = nextID s"
  "tick (updOrg i f s) = tick s"
  "obstacleKeys (updOrg i f s) = obstacleKeys s"
  "idx (updOrg i f s) x y = idx s x y"
  by (simp_all add: updOrg_def idx_def)

lemma deleteOrg_frame [simp]:
  "gridSize (deleteOrg i s) = gridSize s"
  "params (deleteOrg i s) = params s"
  "grid (deleteOrg i s) = grid s"
  "pixelHP (deleteOrg i s) = pixelHP s"
  "foodPixels (deleteOrg i s) = foodPixels s"
  "envEnergy (deleteOrg i s) = envEnergy s"
  "nextID (deleteOrg i s) = nextID s"
  "tick (deleteOrg i s) = tick s"
  "obstacleKeys (deleteOrg i s) = obstacleKeys s"
  "idx (deleteOrg i s) x y = idx s x y"
  by (simp_all add: deleteOrg_def idx_def)

lemma getOrg_makeFood [simp]: "getOrg (makeFood k s) j = getOrg s j"
  by (simp add: getOrg_def)

lemma getOrg_fold_makeFood [simp]: "getOrg (fold makeFood ks s) j = getOrg s j"
  by (simp add: getOrg_def)

lemma detach_frame [simp]:
  "gridSize (detach i k s) = gridSize s"
  "params (detach i k s) = params s"
  "envEnergy (detach i k s) = envEnergy s"
  "nextID (detach i k s) = nextID s"
  "tick (detach i k s) = tick s"
  "length (grid (detach i k s)) = length (grid s)"
  "length (pixelHP (detach i k s)) = length (pixelHP s)"
  "idx (detach i k s) x y = idx s x y"
  by (simp_all add: detach_def)

lemma getOrg_detach:
  "getOrg (detach i k s) j =
     (if j = i then map_option (\<lambda>og. og\<lparr>pixels := AList.delete k (pixels og)\<rparr>) (getOrg s i)
      else getOrg s j)"
  by (simp add: detach_def getOrg_updOrg)

lemma detachLoop_frame [simp]:
  "gridSize (detachLoop i r ks s) = gridSize s"
  "params (detachLoop i r ks s) = params s"
  "envEnergy (detachLoop i r ks s) = envEnergy s"
  "nextID (detachLoop i r ks s) = nextID s"
  "tick (detachLoop i r ks s) = tick s"
  "length (grid (detachLoop i r ks s)) = length (grid s)"
  "length (pixelHP (detachLoop i r ks s)) = length (pixelHP s)"
  unfolding detachLoop_def by (induction ks arbitrary: s; simp)+

lemma getOrg_detachLoop_other:
  "j \<noteq> i \<Longrightarrow> getOrg (detachLoop i r ks s) j = getOrg s j"
  unfolding detachLoop_def by (induction ks arbitrary: s) (simp_all add: getOrg_detach)

lemma detach_nth:
  "j < length (grid s) \<Longrightarrow>
     grid (detach i k s) ! j = (if j = idx s (fst k) (snd k) then -1 else grid s ! j)"
  "j < length (pixelHP s) \<Longrightarrow>
     pixelHP (detach i k s) ! j = (if j = idx s (fst k) (snd k) then 1 else pixelHP s ! j)"
  by (simp_all add: detach_def makeFood_nth)

lemma detachLoop_pixelHP_other:
  "j < length (pixelHP s) \<Longrightarrow> j \<notin> (\<lambda>k. idx s (fst k) (snd k)) ` set ks \<Longrightarrow>
   pixelHP (detachLoop i r ks s) ! j = pixelHP s ! j"
  unfolding detachLoop_def
proof (induction ks arbitrary: s)
  case Nil
  then show ?case by simp
next
  case (Cons k ks)
  show ?case
  proof (cases "k \<in> set r")
    case True
    with Cons show ?thesis by simp
  next
    case False
    from Cons.prems have a: "j < length (pixelHP (detach i k s))"
      and b: "j \<notin> (\<lambda>k'. idx (detach i k s) (fst k') (snd k')) ` set ks"
      by auto
    from Cons.IH [OF a b] False Cons.prems show ?thesis
      by (simp add: detach_nth)
  qed
qed

lemma detachLoop_pixels:
  "getOrg s i = Some org \<Longrightarrow>
   \<exists>org1. getOrg (detachLoop i r ks s) i = Some org1 \<and>
          fst ` set (pixels org1) \<subseteq> fst ` set (pixels org)"
  unfolding detachLoop_def
proof (induction ks arbitrary: s org)
  case Nil
  then show ?case by simp
next
  case (Cons k ks)
  show ?case
  proof (cases "k \<in> set r")
    case True
    with Cons show ?thesis by simp
  next
    case False
    let ?o = "org\<lparr>pixels := AList.delete k (pixels org)\<rparr>"
    from Cons.prems have "getOrg (detach i k s) i = Some ?o"
      by (simp add: getOrg_detach)
    from Cons.IH [OF this] obtain org1 where
      "getOrg (fold (\<lambda>k st. if k \<in> set r then st else detach i k st) ks (detach i k s)) i = Some org1"
      "fst ` set (pixels org1) \<subseteq> fst ` set (pixels ?o)"
      by blast
    moreover have "fst ` set (pixels ?o) \<subseteq> fst ` set (pixels org)"
      by (auto simp: AList.delete_eq)
    ultimately show ?thesis using False by auto
  qed
qed

lemma checkConnectivity_unfold:
  "checkConnectivity i s =
     (case getOrg s i of
        None \<Rightarrow> s
      | Some org \<Rightarrow>
          if length (pixels org) = 0 \<or> \<not> hasKey (eyeX org, eyeY org) (pixels org)
          then removeOrganism i s
          else
            (let s1 = detachLoop i (bfsLoop s (pixels org) ([(eyeX org, eyeY org)], [(eyeX org, eyeY org)]))
                        (map fst (pixels org)) s
             in case getOrg s1 i of
                  None \<Rightarrow> s1
                | Some org1 \<Rightarrow> if length (pixels org1) = 0 then removeOrganism i s1 else s1))"
  by (auto simp: checkConnectivity_def Let_def split: option.splits)

lemma removeOrganism_frame [simp]:
  "gridSize (removeOrganism i s) = gridSize s"
  "params (removeOrganism i s) = params s"
  "envEnergy (removeOrganism i s) = envEnergy s"
  "nextID (removeOrganism i s) = nextID s"
  "tick (removeOrganism i s) = tick s"
  "length (grid (removeOrganism i s)) = length (grid s)"
  "length (pixelHP (removeOrganism i s)) = length (pixelHP s)"
  by (simp_all add: removeOrganism_def split: option.splits)

lemma getOrg_removeOrganism:
  "getOrg (removeOrganism i s) j = (if j = i then None else getOrg s j)"
  by (auto simp: removeOrganism_def getOrg_deleteOrg_other split: option.splits)

lemma removeOrganism_pixelHP_other:
  "getOrg s i = Some org \<Longrightarrow> j < length (pixelHP s) \<Longrightarrow>
   j \<notin> (\<lambda>k. idx s (fst k) (snd k)) ` fst ` set (pixels org) \<Longrightarrow>
   pixelHP (removeOrganism i s) ! j = pixelHP s ! j"
  by (simp add: removeOrganism_def fold_makeFood_pixelHP)

lemma checkConnectivity_frame [simp]:
  "gridSize (checkConnectivity i s) = gridSize s"
  "params (checkConnectivity i s) = params s"
  "envEnergy (checkConnectivity i s) = envEnergy s"
  "nextID (checkConnectivity i s) = nextID s"
  "tick (checkConnectivity i s) = tick s"
  "length (grid (checkConnectivity i s)) = length (grid s)"
  "length (pixelHP (checkConnectivity i s)) = length (pixelHP s)"
  by (simp_all add: checkConnectivity_unfold Let_def split: option.splits)

lemma getOrg_checkConnectivity_other:
  "j \<noteq> i \<Longrightarrow> getOrg (checkConnectivity i s) j = getOrg s j"
  by (simp add: checkConnectivity_unfold Let_def getOrg_removeOrganism getOrg_detachLoop_other
        split: option.splits)

lemma checkConnectivity_pixelHP_other:
  assumes "getOrg s i = Some org" "j < length (pixelHP s)"
    and "j \<notin> (\<lambda>k. idx s (fst k) (snd k)) ` fst ` set (pixels org)"
  shows "pixelHP (checkConnectivity i s) ! j = pixelHP s ! j"
proof (cases "length (pixels org) = 0 \<or> \<not> hasKey (eyeX org, eyeY org) (pixels org)")
  case True
  with assms show ?thesis
    by (simp add: checkConnectivity_unfold removeOrganism_pixelHP_other)
next
  case False
  let ?r = "bfsLoop s (pixels org) ([(eyeX org, eyeY org)], [(eyeX org, eyeY org)])"
  let ?s1 = "detachLoop i ?r (map fst (pixels org)) s"
  from assms have hp1: "pixelHP ?s1 ! j = pixelHP s ! j"
    by (simp add: detachLoop_pixelHP_other)
  from detachLoop_pixels [OF assms(1)] obtain org1 where
    o1: "getOrg ?s1 i = Some org1" "fst ` set (pixels org1) \<subseteq> fst ` set (pixels org)"
    by blast
  have idx1: "\<And>x y. idx ?s1 x y = idx s x y" by (simp add: idx_def)
  have "(\<lambda>k. idx ?s1 (fst k) (snd k)) ` fst ` set (pixels org1)
          \<subseteq> (\<lambda>k. idx s (fst k) (snd k)) ` fst ` set (pixels org)"
    unfolding idx1 using o1(2) by (rule image_mono)
  with assms(3) have "j \<notin> (\<lambda>k. idx ?s1 (fst k) (snd k)) ` fst ` set (pixels org1)"
    by blast
  with o1 assms have "pixelHP (removeOrganism i ?s1) ! j = pixelHP ?s1 ! j"
    by (simp add: removeOrganism_pixelHP_other)
  with hp1 False assms(1) o1 show ?thesis
    by (simp add: checkConnectivity_unfold Let_def)
qed

subsection \<open>Hit-points\<close>


lemma hpDec_zero [simp]: "hpDec 0 = 0"
  by (simp add: hpDec_def)

lemma hpDec_le_one: "h \<le> 1 \<Longrightarrow> hpDec h = 0"
proof -
  assume "h \<le> 1"
  then have "uint h \<le> 1" by (simp add: word_le_def)
  then have "max 0 (uint h - 1) = 0" by simp
  then show ?thesis by (simp add: hpDec_def)
qed

subsection \<open>C6: the attack fee and the hit\<close>



lemma getOrg_field [simp]:
  "getOrg (s\<lparr>pixelHP := h\<rparr>) i = getOrg s i"
  "getOrg (s\<lparr>grid := g\<rparr>) i = getOrg s i"
  "getOrg (s\<lparr>envEnergy := e\<rparr>) i = getOrg s i"
  "getOrg (s\<lparr>foodPixels := f\<rparr>) i = getOrg s i"
  "getOrg (s\<lparr>debugCounters := d\<rparr>) i = getOrg s i"
  "getOrg (s\<lparr>randomPos := n\<rparr>) i = getOrg s i"
  "getOrg (s\<lparr>tick := tk\<rparr>) i = getOrg s i"
  "getOrg (s\<lparr>reservations := rs\<rparr>) i = getOrg s i"
  "getOrg (s\<lparr>nextID := ni\<rparr>) i = getOrg s i"
  by (simp_all add: getOrg_def)

lemma killCell_energy:
  assumes "getOrg s i = Some org" "tid \<noteq> i"
  shows "getOrg (killCell i (tx, ty, tid) s) i =
           Some (org\<lparr>energy := fadd (energy org)
                                   (fmul (c2 (params s)) (energyTransferRatio (params s)))\<rparr>)"
    and "envEnergy (killCell i (tx, ty, tid) s) =
           fadd (envEnergy s) (fmul (c2 (params s)) (fsub 1 (energyTransferRatio (params s))))"
  using assms
  by (auto simp: killCell_def Let_def getOrg_updOrg getOrg_checkConnectivity_other
           split: option.splits)

subsection \<open>C5: what the actor and the environment are credited with\<close>

text \<open>
  C5 (as amended). When an attack that goes ahead brings the target cell's hit-points to
  zero, or an absorption those of the food cell, the actor's energy becomes the double sum
  of its energy after the fee and the double product \<open>c2 * energyTransferRatio\<close>, and the
  environment pool becomes the double sum of itself and the double product
  \<open>c2 * (1 - energyTransferRatio)\<close>. Every one of these operations rounds to the nearest
  double: the two credits are \<open>c2 * energyTransferRatio\<close> and
  \<open>c2 * (1 - energyTransferRatio)\<close> up to rounding, and they need not add up to \<open>c2\<close>.
\<close>

theorem kill_and_absorb_credit:
  "(getOrg s i = Some org \<and> tid \<noteq> i \<and>
    \<not> (attackEnergyCost (params s) > 0 \<and> energy org - attackEnergyCost (params s) \<le> 0) \<and>
    idx s tx ty < length (pixelHP s) \<and> pixelHP s ! idx s tx ty \<le> 1
    \<longrightarrow> (\<exists>org'. getOrg (attackTarget i (tx, ty, tid) s) i = Some org' \<and>
           energy org' = fadd (energy org - max 0 (attackEnergyCost (params s)))
                           (fmul (c2 (params s)) (energyTransferRatio (params s))) \<and>
           envEnergy (attackTarget i (tx, ty, tid) s) =
             fadd (envEnergy s) (fmul (c2 (params s)) (fsub 1 (energyTransferRatio (params s)))))) \<and>
   (getOrg s i = Some org \<and>
    idx s nx ny < length (pixelHP s) \<and> pixelHP s ! idx s nx ny \<le> 1
    \<longrightarrow> (\<exists>org'. getOrg (absorbCell i (nx, ny) s) i = Some org' \<and>
           energy org' = fadd (if absorbEnergyCost (params s) > 0
                               then fsub (energy org) (absorbEnergyCost (params s))
                               else energy org)
                           (fmul (c2 (params s)) (energyTransferRatio (params s))) \<and>
           envEnergy (absorbCell i (nx, ny) s) =
             fadd (envEnergy s) (fmul (c2 (params s)) (fsub 1 (energyTransferRatio (params s))))))"
proof (intro conjI impI)
  assume a: "getOrg s i = Some org \<and> tid \<noteq> i \<and>
    \<not> (attackEnergyCost (params s) > 0 \<and> energy org - attackEnergyCost (params s) \<le> 0) \<and>
    idx s tx ty < length (pixelHP s) \<and> pixelHP s ! idx s tx ty \<le> 1"
  let ?c = "attackEnergyCost (params s)"
  let ?k = "idx s tx ty"
  let ?s1 = "if ?c > 0 then updOrg i (\<lambda>og. og\<lparr>energy := energy og - ?c\<rparr>) s else s"
  let ?s2 = "?s1\<lparr>pixelHP := (pixelHP ?s1)[?k := hpDec (pixelHP ?s1 ! ?k)]\<rparr>"
  from a have zero: "pixelHP ?s2 ! ?k = 0" by (simp add: hpDec_le_one)
  from a have g2: "getOrg ?s2 i = Some (org\<lparr>energy := energy org - max 0 ?c\<rparr>)"
    by (simp add: getOrg_updOrg max_def)
  have p2: "params ?s2 = params s" "envEnergy ?s2 = envEnergy s" by simp_all
  from a zero have eq: "attackTarget i (tx, ty, tid) s = killCell i (tx, ty, tid) ?s2"
    by (cases "?c > 0") (simp_all add: attackTarget_def Let_def)
  from a have ne: "tid \<noteq> i" by simp
  show "\<exists>org'. getOrg (attackTarget i (tx, ty, tid) s) i = Some org' \<and>
           energy org' = fadd (energy org - max 0 ?c)
                           (fmul (c2 (params s)) (energyTransferRatio (params s))) \<and>
           envEnergy (attackTarget i (tx, ty, tid) s) =
             fadd (envEnergy s) (fmul (c2 (params s)) (fsub 1 (energyTransferRatio (params s))))"
    unfolding eq killCell_energy [OF g2 ne] p2 by simp
next
  assume a: "getOrg s i = Some org \<and>
    idx s nx ny < length (pixelHP s) \<and> pixelHP s ! idx s nx ny \<le> 1"
  then show "\<exists>org'. getOrg (absorbCell i (nx, ny) s) i = Some org' \<and>
           energy org' = fadd (if absorbEnergyCost (params s) > 0
                               then fsub (energy org) (absorbEnergyCost (params s))
                               else energy org)
                           (fmul (c2 (params s)) (energyTransferRatio (params s))) \<and>
           envEnergy (absorbCell i (nx, ny) s) =
             fadd (envEnergy s) (fmul (c2 (params s)) (fsub 1 (energyTransferRatio (params s))))"
    by (simp add: absorbCell_def Let_def hpDec_le_one getOrg_updOrg)
qed

theorem kill_and_absorb_credit_witness:
  "getOrg duel3 1 = Some duelBig \<and> energy duelBig = 400 \<and>
   c2 (params duel3) = 100 \<and> energyTransferRatio (params duel3) = 7 / 10 \<and>
   (\<exists>org'. getOrg (attackTarget 1 (2, 1, 2) duel3) 1 = Some org' \<and> energy org' = 939 / 2) \<and>
   envEnergy (attackTarget 1 (2, 1, 2) duel3) = 2030 \<and>
   getOrg meal3 2 = Some duelSmall \<and> energy duelSmall = 400 \<and>
   (\<exists>org'. getOrg (absorbCell 2 (1, 1) meal3) 2 = Some org' \<and>
      energy org' = 8264809003666637 / 17592186044416) \<and>
   envEnergy (absorbCell 2 (1, 1) meal3) = 2030"
proof -
  have d: "getOrg duel3 1 = Some duelBig" "attackEnergyCost (params duel3) = 1 / 2"
    "energy duelBig = 400" "idx duel3 2 1 = 5" "pixelHP duel3 = [0, 0, 0, 2, 2, 1, 0, 0, 0]"
    "c2 (params duel3) = 100" "energyTransferRatio (params duel3) = 7 / 10"
    "envEnergy duel3 = 2000"
    by (simp_all add: getOrg_def duel3_def duelBig_def closed3_def idx_def
          emptySimulation_def DEFAULT_PARAMS_def)
  have m: "getOrg meal3 2 = Some duelSmall" "absorbEnergyCost (params meal3) = 1 / 5"
    "energy duelSmall = 400" "idx meal3 1 1 = 4" "pixelHP meal3 = [0, 0, 0, 0, 1, 1, 0, 0, 0]"
    "c2 (params meal3) = 100" "energyTransferRatio (params meal3) = 7 / 10"
    "envEnergy meal3 = 2000"
    by (simp_all add: getOrg_def meal3_def duelSmall_def closed3_def idx_def
          emptySimulation_def DEFAULT_PARAMS_def)
  from kill_and_absorb_credit [of duel3 1 duelBig 2 2 1 0 0]
  have k: "(\<exists>org'. getOrg (attackTarget 1 (2, 1, 2) duel3) 1 = Some org' \<and> energy org' = 939 / 2) \<and>
   envEnergy (attackTarget 1 (2, 1, 2) duel3) = 2030"
    by (auto simp: d dbl)
  from kill_and_absorb_credit [of meal3 2 duelSmall 0 0 0 1 1]
  have a: "(\<exists>org'. getOrg (absorbCell 2 (1, 1) meal3) 2 = Some org' \<and>
      energy org' = 8264809003666637 / 17592186044416) \<and>
   envEnergy (absorbCell 2 (1, 1) meal3) = 2030"
    by (auto simp: m dbl)
  from k a d m show ?thesis by simp
qed

theorem credits_counterexample:
  "c2 (params tithe3) = 10 \<and> energyTransferRatio (params tithe3) = 3 / 50 \<and>
   attackEnergyCost (params tithe3) = 1 / 2 \<and>
   getOrg tithe3 1 = Some duelBig \<and> energy duelBig = 400 \<and> envEnergy tithe3 = 2000 \<and>
   pixelHP tithe3 ! idx tithe3 2 1 = 1 \<and>
   getOrg (attackTarget 1 (2, 1, 2) tithe3) 1 =
     Some (duelBig\<lparr>energy := 3519316818185421 / 8796093022208\<rparr>) \<and>
   envEnergy (attackTarget 1 (2, 1, 2) tithe3) = 4418717329706189 / 2199023255552 \<and>
   (3519316818185421 / 8796093022208 - (400 - 1 / 2)) +
     (4418717329706189 / 2199023255552 - 2000) \<noteq> (10 :: real) \<and>
   fmul 10 (3 / 50) + fmul 10 (fsub 1 (3 / 50)) \<noteq> 10 \<and>
   fadd (fmul 10 (3 / 50)) (fmul 10 (fsub 1 (3 / 50))) \<noteq> 10"
proof -
  have d: "getOrg tithe3 1 = Some duelBig" "attackEnergyCost (params tithe3) = 1 / 2"
    "energy duelBig = 400" "idx tithe3 2 1 = 5" "pixelHP tithe3 = [0, 0, 0, 2, 2, 1, 0, 0, 0]"
    "c2 (params tithe3) = 10" "energyTransferRatio (params tithe3) = 3 / 50"
    "envEnergy tithe3 = 2000"
    by (simp_all add: getOrg_def tithe3_def duel3_def duelBig_def closed3_def idx_def
          emptySimulation_def DEFAULT_PARAMS_def)
  have hp: "pixelHP tithe3 ! idx tithe3 2 1 = 1" by (simp add: d)
  let ?s2 = "(updOrg 1 (\<lambda>og. og\<lparr>energy := energy og - 1 / 2\<rparr>) tithe3)
               \<lparr>pixelHP := [0, 0, 0, 2, 2, 0, 0, 0, 0]\<rparr>"
  have eq: "attackTarget 1 (2, 1, 2) tithe3 = killCell 1 (2, 1, 2) ?s2"
    by (simp add: attackTarget_def Let_def d hpDec_le_one)
  have g2: "getOrg ?s2 1 = Some (duelBig\<lparr>energy := 799 / 2\<rparr>)"
    by (simp add: getOrg_updOrg d)
  have p2: "params ?s2 = params tithe3" "envEnergy ?s2 = 2000" by (simp_all add: d)
  have ne: "(2::int) \<noteq> 1" by simp
  have c: "fadd (799 / 2) (fmul 10 (3 / 50)) = 3519316818185421 / 8796093022208"
    "fadd 2000 (fmul 10 (fsub 1 (3 / 50))) = 4418717329706189 / 2199023255552"
    by (simp_all add: dbl)
  have "getOrg (attackTarget 1 (2, 1, 2) tithe3) 1 =
          Some (duelBig\<lparr>energy := fadd (799 / 2) (fmul 10 (3 / 50))\<rparr>)"
    unfolding eq killCell_energy(1) [OF g2 ne] p2 d by simp
  then have e: "getOrg (attackTarget 1 (2, 1, 2) tithe3) 1 =
             Some (duelBig\<lparr>energy := 3519316818185421 / 8796093022208\<rparr>)"
    by (simp only: c)
  have "envEnergy (attackTarget 1 (2, 1, 2) tithe3) = fadd 2000 (fmul 10 (fsub 1 (3 / 50)))"
    unfolding eq killCell_energy(2) [OF g2 ne] p2 d ..
  then have v: "envEnergy (attackTarget 1 (2, 1, 2) tithe3) = 4418717329706189 / 2199023255552"
    by (simp only: c)
  have s1: "fmul 10 (3 / 50) + fmul 10 (fsub 1 (3 / 50)) \<noteq> 10"
    by (simp add: dbl)
  have s2: "fadd (fmul 10 (3 / 50)) (fmul 10 (fsub 1 (3 / 50))) \<noteq> 10"
    by (simp add: dbl)
  have s3: "(3519316818185421 / 8796093022208 - (400 - 1 / 2)) +
            (4418717329706189 / 2199023255552 - 2000) \<noteq> (10::real)"
    by simp
  show ?thesis
    by (intro conjI) (rule d hp e v s1 s2 s3)+
qed

subsection \<open>Contenders and winners\<close>

lemma sint32_eq: "sint (a :: 32 word) = sint b \<longleftrightarrow> a = b"
  by (auto intro: signed_word_eqI)

lemma betterThan_key: "betterThan c w \<longleftrightarrow> winKey c > winKey w"
  by (auto simp: betterThan_def winKey_def less_prod_def sint32_eq)

lemma winnerStep_Some:
  "winnerStep c (Some w) = Some (if betterThan c w then c else w)"
  by (simp add: winnerStep_def)

lemma pickWinner_fold:
  "\<exists>w. fold winnerStep cs (Some w0) = Some w \<and>
        w \<in> insert w0 (set cs) \<and> (\<forall>c \<in> insert w0 (set cs). winKey c \<le> winKey w)"
proof (induction cs arbitrary: w0)
  case Nil
  then show ?case by simp
next
  case (Cons a cs)
  let ?w1 = "if betterThan a w0 then a else w0"
  from Cons.IH [of ?w1] obtain w where
    w: "fold winnerStep cs (Some ?w1) = Some w"
       "w \<in> insert ?w1 (set cs)" "\<forall>c \<in> insert ?w1 (set cs). winKey c \<le> winKey w"
    by blast
  from w(3) have k1: "winKey ?w1 \<le> winKey w" by simp
  have "winKey a \<le> winKey ?w1" "winKey w0 \<le> winKey ?w1"
    by (auto simp: betterThan_key)
  with k1 have k: "winKey a \<le> winKey w" "winKey w0 \<le> winKey w" by auto
  have f: "fold winnerStep (a # cs) (Some w0) = Some w"
    using w(1) by (simp add: winnerStep_Some)
  have m: "w \<in> insert w0 (set (a # cs))"
    using w(2) by (auto split: if_splits)
  have "\<forall>c \<in> insert w0 (set (a # cs)). winKey c \<le> winKey w"
    using w(3) k by auto
  with f m show ?case by blast
qed

lemma pickWinner_Cons:
  "\<exists>w. pickWinner (c0 # cs) = Some w \<and> w \<in> set (c0 # cs) \<and>
        (\<forall>c \<in> set (c0 # cs). winKey c \<le> winKey w)"
proof -
  have "pickWinner (c0 # cs) = fold winnerStep cs (Some c0)"
    by (simp add: pickWinner_def winnerStep_def)
  with pickWinner_fold [of cs c0] show ?thesis by auto
qed

lemma pickWinner_Some:
  "pickWinner cs = Some w \<Longrightarrow> w \<in> set cs \<and> (\<forall>c \<in> set cs. winKey c \<le> winKey w)"
proof (cases cs)
  case Nil
  assume "pickWinner cs = Some w"
  with Nil show ?thesis by (simp add: pickWinner_def)
next
  case (Cons c0 cs')
  assume a: "pickWinner cs = Some w"
  from pickWinner_Cons [of c0 cs'] Cons a show ?thesis by auto
qed

lemma pickWinner_nonempty: "cs \<noteq> [] \<Longrightarrow> pickWinner cs \<noteq> None"
proof -
  assume "cs \<noteq> []"
  then obtain c0 cs' where cs: "cs = c0 # cs'" by (cases cs) auto
  from pickWinner_Cons [of c0 cs'] show ?thesis by (auto simp: cs)
qed

lemma contendersOf_update:
  "contendersOf (AList.update k v cm) n = (if n = k then v else contendersOf cm n)"
  by (simp add: contendersOf_def update_conv')

lemma contendersOf_addContender:
  "set (contendersOf (addContender s og p cm) n) =
     set (contendersOf cm n) \<union>
     (if n = snd p then {(id_o og, priorityOf s og (fst n) (snd n))} else {})"
  by (simp add: addContender_def Let_def contendersOf_update)

lemma contendersOf_fold_addContender:
  "set (contendersOf (fold (addContender s og) props cm) n) =
     set (contendersOf cm n) \<union>
     (if n \<in> snd ` set props then {(id_o og, priorityOf s og (fst n) (snd n))} else {})"
proof (induction props arbitrary: cm)
  case Nil
  then show ?case by simp
next
  case (Cons p props)
  show ?case
    by (auto simp: Cons.IH contendersOf_addContender)
qed

lemma cellMapOk_update:
  "cellMapOk cm \<Longrightarrow> v \<noteq> [] \<Longrightarrow> cellMapOk (AList.update k v cm)"
proof -
  assume ok: "cellMapOk cm" and v: "v \<noteq> []"
  have "set (AList.update k v cm) \<subseteq> insert (k, v) (set cm)"
    by (induction cm) auto
  with ok v have "\<forall>e \<in> set (AList.update k v cm). snd e \<noteq> []"
    by (auto simp: cellMapOk_def)
  with ok show ?thesis by (simp add: cellMapOk_def distinct_update)
qed

lemma cellMapOk_fold_addContender:
  "cellMapOk cm \<Longrightarrow> cellMapOk (fold (addContender s og) props cm)"
  by (induction props arbitrary: cm) (simp_all add: addContender_def Let_def cellMapOk_update)

lemma collect_cellMapOk:
  "cellMapOk (snd (fold (recordProposals s) movers acc))" if "cellMapOk (snd acc)"
  using that
proof (induction movers arbitrary: acc)
  case Nil
  then show ?case by simp
next
  case (Cons m movers)
  have "cellMapOk (snd (recordProposals s m acc))"
    using Cons.prems
    by (simp add: recordProposals_def Let_def cellMapOk_fold_addContender split: prod.splits)
  from Cons.IH [OF this] show ?case by simp
qed

lemma collect_contenders:
  "set (contendersOf (snd (fold (recordProposals s) movers acc)) n) =
     set (contendersOf (snd acc) n) \<union>
     (\<lambda>m. (id_o (fst m), priorityOf s (fst m) (fst n) (snd n))) `
        {m \<in> set movers. n \<in> snd ` set (fst (proposalsOf s m))}"
proof (induction movers arbitrary: acc)
  case Nil
  then show ?case by simp
next
  case (Cons m movers)
  have one: "set (contendersOf (snd (recordProposals s m acc)) n) =
     set (contendersOf (snd acc) n) \<union>
     (if n \<in> snd ` set (fst (proposalsOf s m))
      then {(id_o (fst m), priorityOf s (fst m) (fst n) (snd n))} else {})"
    by (simp add: recordProposals_def Let_def contendersOf_fold_addContender split: prod.splits)
  have split: "{m' \<in> set (m # movers). n \<in> snd ` set (fst (proposalsOf s m'))} =
     (if n \<in> snd ` set (fst (proposalsOf s m)) then {m} else {}) \<union>
     {m' \<in> set movers. n \<in> snd ` set (fst (proposalsOf s m'))}"
    by auto
  show ?case
    unfolding fold_simps Cons.IH one split by (simp add: image_Un Un_assoc)
qed

lemma winnersByCell_lookup:
  "cellMapOk cm \<Longrightarrow>
   map_of (winnersByCell res cm) n =
     (if staticallyReserved res n \<or> contendersOf cm n = [] then None
      else map_option fst (pickWinner (contendersOf cm n)))"
proof (induction cm)
  case Nil
  then show ?case by (simp add: winnersByCell_def contendersOf_def)
next
  case (Cons e cm)
  obtain cell cs where e: "e = (cell, cs)" by (cases e)
  from Cons.prems e have ok: "cellMapOk cm" and ne: "cs \<noteq> []" and fresh: "cell \<notin> fst ` set cm"
    by (auto simp: cellMapOk_def)
  from pickWinner_nonempty [OF ne] obtain w where w: "pickWinner cs = Some w"
    by auto
  have tail: "winnersByCell res (e # cm) =
      (if staticallyReserved res cell then winnersByCell res cm
       else (cell, fst w) # winnersByCell res cm)"
    by (simp add: winnersByCell_def e w)
  show ?case
  proof (cases "n = cell")
    case True
    from fresh have "map_of cm cell = None" by (simp add: map_of_eq_None_iff)
    then have none: "contendersOf cm cell = []" by (simp add: contendersOf_def)
    have here: "contendersOf (e # cm) cell = cs" by (simp add: contendersOf_def e)
    show ?thesis
      using Cons.IH [OF ok] True none here ne w
      by (simp add: tail)
  next
    case False
    then have "contendersOf (e # cm) n = contendersOf cm n"
      by (simp add: contendersOf_def e)
    with Cons.IH [OF ok] False show ?thesis
      by (simp add: tail)
  qed
qed

lemma map_of_fold_update_const:
  "map_of (fold (\<lambda>k. AList.update k v) ks rs) x =
     (if x \<in> set ks then Some v else map_of rs x)"
  by (induction ks arbitrary: rs) (auto simp: update_conv')

lemma stationary_reserved:
  "staticallyReserved (fold (stationaryStep ids) orgs rs) x \<longleftrightarrow>
     staticallyReserved rs x \<or>
     (\<exists>og \<in> set orgs. id_o og \<in> set ids \<and> x \<in> fst ` set (pixels og))"
proof (induction orgs arbitrary: rs)
  case Nil
  then show ?case by simp
next
  case (Cons og orgs)
  have "staticallyReserved (stationaryStep ids og rs) x \<longleftrightarrow>
          staticallyReserved rs x \<or> (id_o og \<in> set ids \<and> x \<in> fst ` set (pixels og))"
    by (auto simp: stationaryStep_def staticallyReserved_def map_of_fold_update_const)
  then show ?case by (auto simp: Cons.IH)
qed

lemma staticReservations_reserved:
  "staticallyReserved (staticReservations s sts) x \<longleftrightarrow>
     (\<exists>og \<in> set (organisms s).
         id_o og \<in> org_m ` {st \<in> set sts. \<not> isMoving st} \<and> x \<in> fst ` set (pixels og)) \<or>
     x \<in> fst ` set (foodPixels s) \<or> x \<in> set (obstacleKeys s)"
proof -
  let ?ids = "map org_m (filter (\<lambda>st. \<not> isMoving st) sts)"
  let ?r1 = "fold (stationaryStep ?ids) (organisms s) []"
  let ?r2 = "fold (\<lambda>k. AList.update k \<lparr>id_r = -1, priority = INF_p\<rparr>) (map fst (foodPixels s)) ?r1"
  have eq: "staticReservations s sts =
      fold (\<lambda>k. AList.update k \<lparr>id_r = -2, priority = INF_p\<rparr>) (obstacleKeys s) ?r2"
    unfolding staticReservations_def Let_def ..
  have r1: "staticallyReserved ?r1 x \<longleftrightarrow>
      (\<exists>og \<in> set (organisms s). id_o og \<in> set ?ids \<and> x \<in> fst ` set (pixels og))"
    by (simp add: stationary_reserved) (simp add: staticallyReserved_def)
  have r2: "staticallyReserved ?r2 x \<longleftrightarrow> staticallyReserved ?r1 x \<or> x \<in> fst ` set (foodPixels s)"
    by (auto simp: staticallyReserved_def map_of_fold_update_const)
  have r3: "staticallyReserved (staticReservations s sts) x \<longleftrightarrow>
              staticallyReserved ?r2 x \<or> x \<in> set (obstacleKeys s)"
    unfolding eq by (auto simp: staticallyReserved_def map_of_fold_update_const)
  have ids: "set ?ids = org_m ` {st \<in> set sts. \<not> isMoving st}" by auto
  show ?thesis unfolding r3 r2 r1 ids by blast
qed

lemma decideCommits_granted:
  assumes "collectProposals s (movingSorted s sts) = (byOrg, cm)"
    and "(og, st, props) \<in> set (decideCommits s sts)"
  shows "map_of byOrg (id_o og) = Some props \<and> length props = length (pixels og) \<and>
         (\<forall>p \<in> set props.
            map_of (winnersByCell (staticReservations s sts) cm) (snd p) = Some (id_o og))"
proof -
  from assms have "map_of byOrg (id_o og) = Some props \<and> length props = length (pixels og) \<and>
      list_all (\<lambda>p. map_of (winnersByCell (staticReservations s sts) cm) (snd p) = Some (id_o og))
        props"
    unfolding decideCommits_def Let_def
    by (auto simp: set_map_filter split: option.splits if_splits)
  then show ?thesis by (simp add: list_all_iff)
qed

subsection \<open>What the winner loop computes\<close>

text \<open>
  In a microstep, the contenders recorded for a destination cell are the per-cell
  proposals that passed the bounds and occupancy tests (also those of an organism that a
  later cell excludes), each scored with
  \<open>(moveSpeed << 20) | (pixelCount << 10) | (hash(tick, x, y, id) & 0x3FF)\<close>. The winner of
  a cell is a contender whose key no other contender exceeds (keys compared as signed
  32-bit numbers), and among contenders with its key it has the largest id. Every cell
  with a contender that is not statically reserved has a winner; a cell of a stationary
  organism, a food cell and an obstacle cell has none. A committed organism is the
  winner of every one of its destinations.
\<close>

lemma winners_among_contenders:
  assumes "collectProposals s (movingSorted s sts) = (byOrg, cm)"
    and "winners = winnersByCell (staticReservations s sts) cm"
  shows
    "set (contendersOf cm n) =
       (\<lambda>m. (id_o (fst m),
              push_bit 20 (word_of_int (moveSpeed (fst m))) OR
              push_bit 10 (word_of_nat (length (pixels (fst m)))) OR
              (hash (tick s) (fst n) (snd n) (id_o (fst m)) AND 0x3ff))) `
         {m \<in> set (movingSorted s sts). n \<in> snd ` set (fst (proposalsOf s m))} \<and>
     (\<forall>w. map_of winners n = Some w \<longrightarrow>
        (\<exists>pri. (w, pri) \<in> set (contendersOf cm n) \<and>
           (\<forall>c \<in> set (contendersOf cm n).
              sint (snd c) < sint pri \<or> (snd c = pri \<and> fst c \<le> w)))) \<and>
     (contendersOf cm n \<noteq> [] \<and> \<not> staticallyReserved (staticReservations s sts) n
        \<longrightarrow> map_of winners n \<noteq> None) \<and>
     ((\<exists>og \<in> set (organisms s).
          id_o og \<in> org_m ` {st \<in> set sts. \<not> isMoving st} \<and> n \<in> fst ` set (pixels og)) \<or>
       n \<in> fst ` set (foodPixels s) \<or> n \<in> set (obstacleKeys s)
        \<longrightarrow> map_of winners n = None) \<and>
     (\<forall>c \<in> set (decideCommits s sts). \<forall>p \<in> set (snd (snd c)).
        map_of winners (snd p) = Some (id_o (fst c)))"
proof -
  have cm: "cm = snd (fold (recordProposals s) (movingSorted s sts) ([], []))"
    using assms(1) by (simp add: collectProposals_def)
  have ok: "cellMapOk cm"
    unfolding cm by (rule collect_cellMapOk) (simp add: cellMapOk_def)
  have A: "set (contendersOf cm n) =
       (\<lambda>m. (id_o (fst m), priorityOf s (fst m) (fst n) (snd n))) `
         {m \<in> set (movingSorted s sts). n \<in> snd ` set (fst (proposalsOf s m))}"
    unfolding cm collect_contenders by (simp add: contendersOf_def)
  have look: "map_of winners n =
     (if staticallyReserved (staticReservations s sts) n \<or> contendersOf cm n = [] then None
      else map_option fst (pickWinner (contendersOf cm n)))"
    unfolding assms(2) by (rule winnersByCell_lookup [OF ok])
  have B: "\<forall>w. map_of winners n = Some w \<longrightarrow>
        (\<exists>pri. (w, pri) \<in> set (contendersOf cm n) \<and>
           (\<forall>c \<in> set (contendersOf cm n).
              sint (snd c) < sint pri \<or> (snd c = pri \<and> fst c \<le> w)))"
  proof (intro allI impI)
    fix w
    assume "map_of winners n = Some w"
    with look obtain v where v: "pickWinner (contendersOf cm n) = Some v" "fst v = w"
      by (cases "pickWinner (contendersOf cm n)") (auto split: if_splits)
    from pickWinner_Some [OF v(1)] have
      m: "v \<in> set (contendersOf cm n)" and
      mx: "\<forall>c \<in> set (contendersOf cm n). winKey c \<le> winKey v"
      by simp_all
    have "\<forall>c \<in> set (contendersOf cm n).
              sint (snd c) < sint (snd v) \<or> (snd c = snd v \<and> fst c \<le> w)"
    proof
      fix c
      assume "c \<in> set (contendersOf cm n)"
      with mx have "winKey c \<le> winKey v" by blast
      then show "sint (snd c) < sint (snd v) \<or> (snd c = snd v \<and> fst c \<le> w)"
        using v(2) by (auto simp: winKey_def less_eq_prod_def sint32_eq)
    qed
    moreover from m v(2) have "(w, snd v) \<in> set (contendersOf cm n)" by auto
    ultimately show "\<exists>pri. (w, pri) \<in> set (contendersOf cm n) \<and>
           (\<forall>c \<in> set (contendersOf cm n).
              sint (snd c) < sint pri \<or> (snd c = pri \<and> fst c \<le> w))"
      by blast
  qed
  have C: "contendersOf cm n \<noteq> [] \<and> \<not> staticallyReserved (staticReservations s sts) n
        \<longrightarrow> map_of winners n \<noteq> None"
    using look pickWinner_nonempty [of "contendersOf cm n"] by auto
  have D: "(\<exists>og \<in> set (organisms s).
          id_o og \<in> org_m ` {st \<in> set sts. \<not> isMoving st} \<and> n \<in> fst ` set (pixels og)) \<or>
       n \<in> fst ` set (foodPixels s) \<or> n \<in> set (obstacleKeys s)
        \<longrightarrow> map_of winners n = None"
    using look staticReservations_reserved [of s sts n] by auto
  have E: "\<forall>c \<in> set (decideCommits s sts). \<forall>p \<in> set (snd (snd c)).
        map_of winners (snd p) = Some (id_o (fst c))"
  proof (intro ballI)
    fix c p
    assume c: "c \<in> set (decideCommits s sts)" and p: "p \<in> set (snd (snd c))"
    obtain og st props where e: "c = (og, st, props)" by (cases c)
    from decideCommits_granted [OF assms(1), of og st props] c e p
    show "map_of winners (snd p) = Some (id_o (fst c))"
      by (simp add: assms(2))
  qed
  from A B C D E show ?thesis
    by (simp only: priorityOf_def) 
qed

subsection \<open>C3: the proposals of an excluded organism still contend\<close>

lemma torn_states: "map (initialMoveState torn3) (organisms torn3) = tornStates"
  by (simp add: torn3_def tornBig_def loner_def moverA_def tornStates_def initialMoveState_def
      stepCostOf_def actualSteps_def closed3_def emptySimulation_def DEFAULT_PARAMS_def Let_def)

lemma torn_big_excluded: "proposalsOf torn3 (tornBig, tornStates ! 0) = ([((1, 1), (1, 0))], False)"
  by code_simp

lemma torn_loner_valid: "proposalsOf torn3 (loner, tornStates ! 1) = ([((2, 0), (1, 0))], True)"
  by code_simp

lemma torn_contenders: "collectProposals torn3 (movingSorted torn3 tornStates) =
     ([(2, [((2, 0), (1, 0))])], [((1, 0), [(1, 1050778), (2, 1049749)])])"
  by code_simp

lemma torn_winner: "winnersByCell (staticReservations torn3 tornStates)
      [((1, 0), [(1, 1050778), (2, 1049749)])] = [((1, 0), 1)]"
  by code_simp

lemma torn_no_commit: "decideCommits torn3 tornStates = []"
  by code_simp

lemma torn_flipped_commit: "decideCommits tornFlipped3 tornStates =
    [(loner, tornStates ! 1, [((2, 0), (1, 0))])]"
  by code_simp

lemma torn_reservations: "torn3\<lparr>reservations := []\<rparr> = torn3"
  by (simp add: torn3_def closed3_def emptySimulation_def)

lemma torn_moving: "filter isMoving tornStates = tornStates"
  by (simp add: tornStates_def isMoving_def)

lemma torn_loop:
  "moveLoop torn3 tornStates =
     (torn3\<lparr>reservations := staticReservations torn3 tornStates,
            debugCounters := (debugCounters torn3)\<lparr>starving := starving (debugCounters torn3) + 2\<rparr>\<rparr>,
      map (\<lambda>st. st\<lparr>stepsRemaining := 0\<rparr>) tornStates)"
  by (subst moveLoop.simps) (simp add: torn_moving torn_no_commit Let_def, simp add: tornStates_def isMoving_def)

lemma torn_move:
  "organisms (moveOrganisms torn3) = organisms torn3 \<and> grid (moveOrganisms torn3) = grid torn3"
  by (simp add: moveOrganisms_def torn_states torn_reservations torn_loop Let_def,
      simp add: recover_def tornStates_def torn3_def closed3_def emptySimulation_def
        DEFAULT_PARAMS_def updOrg_def tornBig_def loner_def moverA_def)

text \<open>
  C3 (the code departs from it). The claim has the valid proposals scored and compared: a
  mover one of whose destinations is out of bounds or occupied is excluded for the microstep.
  The code records a contender for every cell it visits before the organism turns out to
  be invalid and does not take it back. In the arena \<open>torn3\<close> the two-cell organism 1 is
  excluded (its second cell would leave the grid), yet the proposal of its first cell for
  \<open>(1, 0)\<close> outbids the only valid proposal, that of organism 2: organism 1 is the winner
  of the cell, nobody commits and nobody moves. With the pixel map of organism 1 in the
  other order its invalid cell comes first, nothing is recorded for it, and organism 2 wins
  and commits: the outcome depends on the order of the pixel map.
\<close>

theorem excluded_mover_contends:
  "map (initialMoveState torn3) (organisms torn3) = tornStates \<and>
   proposalsOf torn3 (tornBig, tornStates ! 0) = ([((1, 1), (1, 0))], False) \<and>
   proposalsOf torn3 (loner, tornStates ! 1) = ([((2, 0), (1, 0))], True) \<and>
   collectProposals torn3 (movingSorted torn3 tornStates) =
     ([(2, [((2, 0), (1, 0))])], [((1, 0), [(1, 1050778), (2, 1049749)])]) \<and>
   winnersByCell (staticReservations torn3 tornStates)
     [((1, 0), [(1, 1050778), (2, 1049749)])] = [((1, 0), 1)] \<and>
   decideCommits torn3 tornStates = [] \<and>
   organisms (moveOrganisms torn3) = organisms torn3 \<and>
   grid (moveOrganisms torn3) = grid torn3 \<and>
   decideCommits tornFlipped3 tornStates = [(loner, tornStates ! 1, [((2, 0), (1, 0))])]"
  using torn_states torn_big_excluded torn_loner_valid torn_contenders torn_winner torn_no_commit torn_move torn_flipped_commit by simp

subsection \<open>Grid indices and food decay\<close>

lemma idx_inj:
  "inBounds s a \<Longrightarrow> inBounds s b \<Longrightarrow> idx s (fst a) (snd a) = idx s (fst b) (snd b) \<Longrightarrow> a = b"
proof -
  assume a: "inBounds s a" and b: "inBounds s b"
    and e: "idx s (fst a) (snd a) = idx s (fst b) (snd b)"
  let ?n = "gridSize s"
  from a b have nn: "0 \<le> snd a * ?n + fst a" "0 \<le> snd b * ?n + fst b"
    by (auto simp: inBounds_def)
  with e have eq: "snd a * ?n + fst a = snd b * ?n + fst b"
    by (simp add: idx_def)
  from a b have r: "0 \<le> fst a" "fst a < ?n" "0 \<le> fst b" "fst b < ?n"
    by (auto simp: inBounds_def)
  have "(snd a * ?n + fst a) div ?n = snd a" "(snd b * ?n + fst b) div ?n = snd b"
    using r by simp_all
  with eq have y: "snd a = snd b" by simp
  with eq have "fst a = fst b" by simp
  with y show ?thesis by (simp add: prod_eq_iff)
qed

lemma idx_less:
  "inBounds s a \<Longrightarrow> idx s (fst a) (snd a) < nat (gridSize s * gridSize s)"
proof -
  assume a: "inBounds s a"
  let ?n = "gridSize s"
  from a have r: "0 \<le> fst a" "fst a < ?n" "0 \<le> snd a" "snd a + 1 \<le> ?n"
    by (auto simp: inBounds_def)
  have "snd a * ?n + fst a < (snd a + 1) * ?n" using r by (simp add: algebra_simps)
  also have "\<dots> \<le> ?n * ?n" using r by (intro mult_right_mono) auto
  finally have "snd a * ?n + fst a < ?n * ?n" .
  moreover have "0 \<le> snd a * ?n + fst a" using r by auto
  ultimately show ?thesis by (simp add: idx_def)
qed

lemma clearFood_frame [simp]:
  "organisms (clearFood k s) = organisms s"
  "gridSize (clearFood k s) = gridSize s"
  "params (clearFood k s) = params s"
  "nextID (clearFood k s) = nextID s"
  "tick (clearFood k s) = tick s"
  "length (grid (clearFood k s)) = length (grid s)"
  "length (pixelHP (clearFood k s)) = length (pixelHP s)"
  "idx (clearFood k s) x y = idx s x y"
  by (simp_all add: clearFood_def Let_def idx_def)

lemma fold_clearFood_frame [simp]:
  "organisms (fold clearFood ks s) = organisms s"
  "gridSize (fold clearFood ks s) = gridSize s"
  "params (fold clearFood ks s) = params s"
  "nextID (fold clearFood ks s) = nextID s"
  "tick (fold clearFood ks s) = tick s"
  "length (grid (fold clearFood ks s)) = length (grid s)"
  "length (pixelHP (fold clearFood ks s)) = length (pixelHP s)"
  by (induction ks arbitrary: s; simp)+

lemma fold_clearFood_grid:
  "j < length (grid s) \<Longrightarrow>
   grid (fold clearFood ks s) ! j =
     (if j \<in> (\<lambda>k. idx s (fst k) (snd k)) ` set ks then 0 else grid s ! j)"
proof (induction ks arbitrary: s)
  case Nil
  then show ?case by simp
next
  case (Cons k ks)
  from Cons.prems have "j < length (grid (clearFood k s))" by simp
  from Cons.IH [OF this] Cons.prems show ?case
    by (simp add: clearFood_def Let_def idx_def nth_list_update)
qed

lemma fold_clearFood_pixelHP:
  "j < length (pixelHP s) \<Longrightarrow>
   pixelHP (fold clearFood ks s) ! j =
     (if j \<in> (\<lambda>k. idx s (fst k) (snd k)) ` set ks then 0 else pixelHP s ! j)"
proof (induction ks arbitrary: s)
  case Nil
  then show ?case by simp
next
  case (Cons k ks)
  from Cons.prems have "j < length (pixelHP (clearFood k s))" by simp
  from Cons.IH [OF this] Cons.prems show ?case
    by (simp add: clearFood_def Let_def idx_def nth_list_update)
qed

lemma fold_clearFood_food:
  "foodPixels (fold clearFood ks s) = filter (\<lambda>e. fst e \<notin> set ks) (foodPixels s)"
proof (induction ks arbitrary: s)
  case Nil
  then show ?case by simp
next
  case (Cons k ks)
  have "foodPixels (clearFood k s) = filter (\<lambda>e. fst e \<noteq> k) (foodPixels s)"
    by (auto simp: clearFood_def Let_def AList.delete_eq intro: filter_cong)
  then show ?case by (auto simp: Cons.IH intro: filter_cong)
qed

lemma fold_clearFood_env:
  "envEnergy (fold clearFood ks s) =
     envEnergy s + real (length ks) * (c2 (params s) * foodDecayReturnRatio (params s))"
proof (induction ks arbitrary: s)
  case Nil
  then show ?case by simp
next
  case (Cons k ks)
  have "envEnergy (clearFood k s) = envEnergy s + c2 (params s) * foodDecayReturnRatio (params s)"
    by (simp add: clearFood_def Let_def)
  then show ?case by (simp add: Cons.IH algebra_simps)
qed

lemma map_of_aged:
  "map_of (map (\<lambda>(k, ttl). if ttl - 1 \<le> 0 then (k, ttl) else (k, ttl - 1)) al) k =
     map_option (\<lambda>ttl. if ttl - 1 \<le> (0::real) then ttl else ttl - 1) (map_of al k)"
  by (induction al) auto

lemma map_of_filter_keys:
  "map_of (filter (\<lambda>e. fst e \<notin> D) al) k = (if k \<in> D then None else map_of al k)"
  by (induction al) auto

lemma expired_keys:
  "distinct (map fst al) \<Longrightarrow>
   k \<in> set (map fst (filter (\<lambda>(k, ttl). ttl - 1 \<le> (0::real)) al)) \<longleftrightarrow>
     (\<exists>ttl. map_of al k = Some ttl \<and> ttl - 1 \<le> 0)"
  by (induction al) (auto simp: rev_image_eqI)

lemma updateFoodDecay_food:
  assumes "distinct (map fst (foodPixels s))"
  shows "map_of (foodPixels (updateFoodDecay s)) k =
     (case map_of (foodPixels s) k of
        None \<Rightarrow> None
      | Some ttl \<Rightarrow> if ttl - 1 \<le> 0 then None else Some (ttl - 1))"
proof -
  let ?D = "set (map fst (filter (\<lambda>(k, ttl). ttl - 1 \<le> 0) (foodPixels s)))"
  let ?aged = "map (\<lambda>(k, ttl). if ttl - 1 \<le> 0 then (k, ttl) else (k, ttl - 1)) (foodPixels s)"
  have f: "foodPixels (updateFoodDecay s) = filter (\<lambda>e. fst e \<notin> ?D) ?aged"
  proof -
    have "foodPixels (s\<lparr>foodPixels := ?aged\<rparr>) = ?aged" by simp
    then show ?thesis
      unfolding updateFoodDecay_def Let_def fold_clearFood_food by (rule arg_cong)
  qed
  have d: "k \<in> ?D \<longleftrightarrow> (\<exists>ttl. map_of (foodPixels s) k = Some ttl \<and> ttl - 1 \<le> 0)"
    by (rule expired_keys [OF assms])
  have "map_of (foodPixels (updateFoodDecay s)) k = (if k \<in> ?D then None else map_of ?aged k)"
    unfolding f by (rule map_of_filter_keys)
  also have "\<dots> = (case map_of (foodPixels s) k of
        None \<Rightarrow> None
      | Some ttl \<Rightarrow> if ttl - 1 \<le> 0 then None else Some (ttl - 1))"
    unfolding d map_of_aged by (auto split: option.splits)
  finally show ?thesis .
qed

lemma step_empty_registry:
  assumes "organisms s = []"
  shows "step s =
    (let s1 = s\<lparr>tick := tick s + 1,
               debugCounters := \<lparr>moving = 0, growing = 0, attacking = 0, starving = 0\<rparr>,
               reservations := []\<rparr>
     in verifyAndSync (updateFoodDecay (if tick s1 mod 5 = 0 then spawnFood s1 else s1)))"
proof -
  let ?s1 = "s\<lparr>tick := tick s + 1,
               debugCounters := \<lparr>moving = 0, growing = 0, attacking = 0, starving = 0\<rparr>\<rparr>"
  have m: "moveOrganisms ?s1 = ?s1\<lparr>reservations := []\<rparr>"
    using assms by (simp add: moveOrganisms_def Let_def moveLoop.simps)
  have o: "organisms (?s1\<lparr>reservations := []\<rparr>) = []" using assms by simp
  have c: "\<And>t. organisms t = [] \<Longrightarrow> combat t = t \<and> absorbFood t = t \<and> metabolism t = t \<and> reproduce t = t"
    by (simp add: combat_def absorbFood_def metabolism_def reproduce_def)
  have sp: "\<And>n t. organisms t = [] \<Longrightarrow> organisms (spawnLoop n t) = []"
  proof -
    fix n t show "organisms t = [] \<Longrightarrow> organisms (spawnLoop n t) = []"
      by (induction n arbitrary: t) (auto simp: Math_random_def Let_def)
  qed
  have sf: "\<And>t. organisms t = [] \<Longrightarrow> organisms (spawnFood t) = []"
    by (simp add: spawnFood_def sp)
  show ?thesis
    unfolding step_def Let_def using assms
    by (simp add: m c sf)
qed

lemma p1: "step pantry3 = pantryFed 5 4"
  by (simp add: step_empty_registry pantry3_def pantryFed_def emptySimulation_def Let_def
      spawnFood_def DEFAULT_PARAMS_def Math_random_def idx_def eval_nat_numeral
      updateFoodDecay_def clearFood_def verifyAndSync_def allCells_def upto.simps syncCell_def)

lemma pstep:
  "ttl > 1 \<Longrightarrow> (tk + 1) mod 5 \<noteq> 0 \<Longrightarrow> step (pantryFed tk ttl) = pantryFed (tk + 1) (ttl - 1)"
  by (simp add: step_empty_registry pantry3_def pantryFed_def emptySimulation_def Let_def
      DEFAULT_PARAMS_def idx_def eval_nat_numeral
      updateFoodDecay_def clearFood_def verifyAndSync_def allCells_def upto.simps syncCell_def)

lemma plast:
  "step (pantryFed 8 1) = pantry3\<lparr>tick := 9, randomPos := 2\<rparr>"
  by (simp add: step_empty_registry pantry3_def pantryFed_def emptySimulation_def Let_def
      DEFAULT_PARAMS_def idx_def eval_nat_numeral
      updateFoodDecay_def clearFood_def verifyAndSync_def allCells_def upto.simps syncCell_def)

lemma updateFoodDecay_frame [simp]:
  "gridSize (updateFoodDecay s) = gridSize s"
  "params (updateFoodDecay s) = params s"
  "organisms (updateFoodDecay s) = organisms s"
  "nextID (updateFoodDecay s) = nextID s"
  "tick (updateFoodDecay s) = tick s"
  "length (grid (updateFoodDecay s)) = length (grid s)"
  "length (pixelHP (updateFoodDecay s)) = length (pixelHP s)"
  by (simp_all add: updateFoodDecay_def Let_def)

lemma updateFoodDecay_distinct:
  "distinct (map fst (foodPixels s)) \<Longrightarrow> distinct (map fst (foodPixels (updateFoodDecay s)))"
proof -
  assume d: "distinct (map fst (foodPixels s))"
  let ?aged = "map (\<lambda>(k, ttl). if ttl - 1 \<le> 0 then (k, ttl) else (k, ttl - 1)) (foodPixels s)"
  have "\<And>al :: (key \<times> real) list.
          map fst (map (\<lambda>(k, ttl). if ttl - 1 \<le> 0 then (k, ttl) else (k, ttl - 1)) al) = map fst al"
  proof -
    fix al :: "(key \<times> real) list"
    show "map fst (map (\<lambda>(k, ttl). if ttl - 1 \<le> 0 then (k, ttl) else (k, ttl - 1)) al) = map fst al"
      by (induction al) auto
  qed
  with d have "distinct (map fst ?aged)" by (simp only:)
  then show ?thesis
    by (simp add: updateFoodDecay_def Let_def fold_clearFood_food distinct_map_filter)
qed

lemma funpow_decay_frame [simp]:
  "gridSize ((updateFoodDecay ^^ m) s) = gridSize s"
  "length (grid ((updateFoodDecay ^^ m) s)) = length (grid s)"
  "length (pixelHP ((updateFoodDecay ^^ m) s)) = length (pixelHP s)"
  by (induction m; simp)+

lemma funpow_decay_distinct:
  "distinct (map fst (foodPixels s)) \<Longrightarrow>
   distinct (map fst (foodPixels ((updateFoodDecay ^^ m) s)))"
  by (induction m) (simp_all add: updateFoodDecay_distinct)

lemma countdown:
  "distinct (map fst (foodPixels s)) \<Longrightarrow> map_of (foodPixels s) k = Some ttl \<Longrightarrow>
   real m < ttl \<Longrightarrow>
   map_of (foodPixels ((updateFoodDecay ^^ m) s)) k = Some (ttl - real m)"
proof (induction m)
  case 0
  then show ?case by simp
next
  case (Suc m)
  from Suc.prems have "real m < ttl" by simp
  from Suc.IH [OF Suc.prems(1,2) this]
  have prev: "map_of (foodPixels ((updateFoodDecay ^^ m) s)) k = Some (ttl - real m)" .
  from Suc.prems have pos: "\<not> (ttl - real m - 1 \<le> 0)" by simp
  show ?case
    using updateFoodDecay_food [OF funpow_decay_distinct [OF Suc.prems(1)], of m k] prev pos
    by (simp add: algebra_simps)
qed

subsection \<open>What a phase leaves alone\<close>

lemma stable_refl [simp]: "stable og og"
  by (simp add: stable_def)

lemma stable_trans: "stable a b \<Longrightarrow> stable b c \<Longrightarrow> stable a c"
  by (simp add: stable_def)

lemma keepsI:
  "params s' = params s \<Longrightarrow> gridSize s' = gridSize s \<Longrightarrow>
   (\<And>i og'. getOrg s' i = Some og' \<Longrightarrow> (\<exists>og. getOrg s i = Some og \<and> R og og') \<or> N og') \<Longrightarrow>
   keeps R N s s'"
  by (simp add: keeps_def)

lemma keeps_refl: "(\<And>og. R og og) \<Longrightarrow> keeps R N s s"
  by (auto simp: keeps_def)

lemma keeps_trans:
  assumes "keeps R N s s'" "keeps R N s' s''"
    and tr: "\<And>a b c. R a b \<Longrightarrow> R b c \<Longrightarrow> R a c"
    and cl: "\<And>a b. N a \<Longrightarrow> R a b \<Longrightarrow> N b"
  shows "keeps R N s s''"
proof (rule keepsI)
  from assms(1,2) show "params s'' = params s" "gridSize s'' = gridSize s"
    by (simp_all add: keeps_def)
next
  fix i og''
  assume g: "getOrg s'' i = Some og''"
  with assms(2) consider og' where "getOrg s' i = Some og'" "R og' og''" | "N og''"
    by (auto simp: keeps_def)
  then show "(\<exists>og. getOrg s i = Some og \<and> R og og'') \<or> N og''"
  proof cases
    case 1
    with assms(1) consider og where "getOrg s i = Some og" "R og og'" | "N og'"
      by (auto simp: keeps_def)
    then show ?thesis
    proof cases
      case 1
      with \<open>R og' og''\<close> tr show ?thesis by blast
    next
      case 2
      with \<open>R og' og''\<close> cl show ?thesis by blast
    qed
  next
    case 2
    then show ?thesis by simp
  qed
qed

lemma keeps_mono:
  "keeps R N s s' \<Longrightarrow> (\<And>a b. R a b \<Longrightarrow> R' a b) \<Longrightarrow> (\<And>a. N a \<Longrightarrow> N' a) \<Longrightarrow> keeps R' N' s s'"
  unfolding keeps_def by blast

lemma keeps_same:
  "organisms s' = organisms s \<Longrightarrow> params s' = params s \<Longrightarrow> gridSize s' = gridSize s \<Longrightarrow>
   (\<And>og. R og og) \<Longrightarrow> keeps R N s s'"
  by (auto simp: keeps_def getOrg_def)

lemma keeps_updOrg:
  "(\<And>og. id_o (f og) = id_o og) \<Longrightarrow> (\<And>og. R og (f og)) \<Longrightarrow> (\<And>og. R og og) \<Longrightarrow>
   keeps R N s (updOrg i f s)"
  by (rule keepsI) (auto simp: getOrg_updOrg split: if_splits)

lemma keeps_deleteOrg: "(\<And>og. R og og) \<Longrightarrow> keeps R N s (deleteOrg i s)"
  by (rule keepsI) (auto simp: getOrg_deleteOrg_other split: if_splits)

lemma keeps_refl': "composable R N \<Longrightarrow> keeps R N s s"
  by (rule keeps_refl) (simp add: composable_def)

lemma keeps_trans':
  "composable R N \<Longrightarrow> keeps R N s s' \<Longrightarrow> keeps R N s' s'' \<Longrightarrow> keeps R N s s''"
  by (rule keeps_trans, assumption+) (auto simp: composable_def)

lemma keeps_fold:
  assumes c: "composable R N" and f: "\<And>x t. keeps R N t (f x t)"
  shows "keeps R N s (fold f xs s)"
proof (induction xs arbitrary: s)
  case Nil
  then show ?case by (simp add: keeps_refl' [OF c])
next
  case (Cons x xs)
  have "keeps R N s (f x s)" by (rule f)
  moreover have "keeps R N (f x s) (fold f xs (f x s))" by (rule Cons.IH)
  ultimately show ?case using keeps_trans' [OF c] by simp
qed

lemma composable_stable: "composable stable noNew"
  unfolding composable_def noNew_def using stable_trans by auto

lemma keeps_makeFood: "(\<And>og. R og og) \<Longrightarrow> keeps R N s (makeFood k s)"
  by (rule keeps_same) simp_all

lemma keeps_fold_makeFood: "(\<And>og. R og og) \<Longrightarrow> keeps R N s (fold makeFood ks s)"
  by (rule keeps_same) simp_all

lemma keeps_removeOrganism: "composable R N \<Longrightarrow> keeps R N s (removeOrganism i s)"
proof -
  assume c: "composable R N"
  then have r: "\<And>og. R og og" by (simp add: composable_def)
  show ?thesis
  proof (cases "getOrg s i")
    case None
    then show ?thesis by (simp add: removeOrganism_def keeps_refl' [OF c])
  next
    case (Some org)
    have "keeps R N s (fold makeFood (map fst (pixels org)) s)"
      by (rule keeps_fold_makeFood [OF r])
    moreover have "keeps R N (fold makeFood (map fst (pixels org)) s)
                     (deleteOrg i (fold makeFood (map fst (pixels org)) s))"
      by (rule keeps_deleteOrg [OF r])
    ultimately show ?thesis
      using Some keeps_trans' [OF c] by (simp add: removeOrganism_def)
  qed
qed

text \<open>Updates of the pixel map, the energy, the age and the planning fields are stable.\<close>

lemma stable_fields [simp]:
  "stable og (og\<lparr>pixels := px\<rparr>)"
  "stable og (og\<lparr>energy := e\<rparr>)"
  "stable og (og\<lparr>age := a, energy := e\<rparr>)"
  "stable og (og\<lparr>stuckCounter := c\<rparr>)"
  "stable og (og\<lparr>direction := d, movedThisTick := m\<rparr>)"
  "stable og (og\<lparr>moveSpeed := ms, hunger := h\<rparr>)"
  by (simp_all add: stable_def)

lemma keeps_detach: "composable R N \<Longrightarrow> (\<And>og px. R og (og\<lparr>pixels := px\<rparr>)) \<Longrightarrow>
   keeps R N s (detach i k s)"
proof -
  assume c: "composable R N" and p: "\<And>og px. R og (og\<lparr>pixels := px\<rparr>)"
  then have r: "\<And>og. R og og" by (simp add: composable_def)
  have "keeps R N s (makeFood k s)" by (rule keeps_makeFood [OF r])
  moreover have "keeps R N (makeFood k s)
     (updOrg i (\<lambda>og. og\<lparr>pixels := AList.delete k (pixels og)\<rparr>) (makeFood k s))"
    by (rule keeps_updOrg) (simp_all add: p r)
  ultimately show ?thesis using keeps_trans' [OF c] by (simp add: detach_def)
qed

lemma keeps_detachLoop: "composable R N \<Longrightarrow> (\<And>og px. R og (og\<lparr>pixels := px\<rparr>)) \<Longrightarrow>
   keeps R N s (detachLoop i r ks s)"
  unfolding detachLoop_def
  by (rule keeps_fold) (simp_all add: keeps_detach keeps_refl')

lemma keeps_checkConnectivity:
  assumes c: "composable R N" and p: "\<And>og px. R og (og\<lparr>pixels := px\<rparr>)"
  shows "keeps R N s (checkConnectivity i s)"
proof (cases "getOrg s i")
  case None
  then show ?thesis by (simp add: checkConnectivity_unfold keeps_refl' [OF c])
next
  case (Some org)
  show ?thesis
  proof (cases "length (pixels org) = 0 \<or> \<not> hasKey (eyeX org, eyeY org) (pixels org)")
    case True
    with Some show ?thesis
      by (simp add: checkConnectivity_unfold keeps_removeOrganism [OF c])
  next
    case False
    let ?s1 = "detachLoop i (bfsLoop s (pixels org) ([(eyeX org, eyeY org)], [(eyeX org, eyeY org)]))
                        (map fst (pixels org)) s"
    have k1: "keeps R N s ?s1" by (rule keeps_detachLoop [OF c p])
    have k2: "keeps R N ?s1 (removeOrganism i ?s1)" by (rule keeps_removeOrganism [OF c])
    from keeps_trans' [OF c k1 k2] k1 Some False show ?thesis
      by (simp add: checkConnectivity_unfold Let_def split: option.splits)
  qed
qed

lemma keeps_target_fields [simp]:
  "keeps R N s (s'\<lparr>grid := g\<rparr>) = keeps R N s s'"
  "keeps R N s (s'\<lparr>pixelHP := h\<rparr>) = keeps R N s s'"
  "keeps R N s (s'\<lparr>foodPixels := f\<rparr>) = keeps R N s s'"
  "keeps R N s (s'\<lparr>reservations := rs\<rparr>) = keeps R N s s'"
  "keeps R N s (s'\<lparr>obstacleKeys := ob\<rparr>) = keeps R N s s'"
  "keeps R N s (s'\<lparr>nextID := ni\<rparr>) = keeps R N s s'"
  "keeps R N s (s'\<lparr>tick := tk\<rparr>) = keeps R N s s'"
  "keeps R N s (s'\<lparr>envEnergy := e\<rparr>) = keeps R N s s'"
  "keeps R N s (s'\<lparr>debugCounters := d\<rparr>) = keeps R N s s'"
  "keeps R N s (s'\<lparr>randomPos := n\<rparr>) = keeps R N s s'"
  by (simp_all add: keeps_def getOrg_def)

lemma keeps_source_fields [simp]:
  "keeps R N (s\<lparr>grid := g\<rparr>) s' = keeps R N s s'"
  "keeps R N (s\<lparr>pixelHP := h\<rparr>) s' = keeps R N s s'"
  "keeps R N (s\<lparr>foodPixels := f\<rparr>) s' = keeps R N s s'"
  "keeps R N (s\<lparr>reservations := rs\<rparr>) s' = keeps R N s s'"
  "keeps R N (s\<lparr>obstacleKeys := ob\<rparr>) s' = keeps R N s s'"
  "keeps R N (s\<lparr>nextID := ni\<rparr>) s' = keeps R N s s'"
  "keeps R N (s\<lparr>tick := tk\<rparr>) s' = keeps R N s s'"
  "keeps R N (s\<lparr>envEnergy := e\<rparr>) s' = keeps R N s s'"
  "keeps R N (s\<lparr>debugCounters := d\<rparr>) s' = keeps R N s s'"
  "keeps R N (s\<lparr>randomPos := n\<rparr>) s' = keeps R N s s'"
  by (simp_all add: keeps_def getOrg_def)

lemma rndOnly_refl [simp]: "rndOnly s s"
proof -
  have "s = s\<lparr>randomPos := randomPos s\<rparr>" by simp
  then show ?thesis unfolding rndOnly_def by (rule exI)
qed

lemma rndOnly_trans: "rndOnly a b \<Longrightarrow> rndOnly b c \<Longrightarrow> rndOnly a c"
proof -
  assume "rndOnly a b" "rndOnly b c"
  then obtain n m where "b = a\<lparr>randomPos := n\<rparr>" "c = b\<lparr>randomPos := m\<rparr>"
    by (auto simp: rndOnly_def)
  then have "c = a\<lparr>randomPos := m\<rparr>" by simp
  then show ?thesis unfolding rndOnly_def by (rule exI)
qed

lemma rndOnly_random [simp]: "rndOnly s (snd (Math_random s))"
  unfolding rndOnly_def Math_random_def snd_conv by (rule exI) (rule refl)

lemma rndOnly_step: "rndOnly s s' \<Longrightarrow> rndOnly s (s'\<lparr>randomPos := n\<rparr>)"
proof -
  assume "rndOnly s s'"
  then obtain m where "s' = s\<lparr>randomPos := m\<rparr>" by (auto simp: rndOnly_def)
  then have "s'\<lparr>randomPos := n\<rparr> = s\<lparr>randomPos := n\<rparr>" by simp
  then show ?thesis unfolding rndOnly_def by (rule exI)
qed

lemma rndOnly_fields:
  "rndOnly s s' \<Longrightarrow>
   organisms s' = organisms s \<and> params s' = params s \<and> gridSize s' = gridSize s \<and>
   grid s' = grid s \<and> pixelHP s' = pixelHP s \<and> foodPixels s' = foodPixels s \<and>
   nextID s' = nextID s \<and> tick s' = tick s \<and> envEnergy s' = envEnergy s \<and>
   obstacleKeys s' = obstacleKeys s \<and> randoms s' = randoms s"
proof -
  assume "rndOnly s s'"
  then obtain m where "s' = s\<lparr>randomPos := m\<rparr>" by (auto simp: rndOnly_def)
  then show ?thesis by simp
qed

lemma keeps_rndOnly: "rndOnly s s' \<Longrightarrow> (\<And>og. R og og) \<Longrightarrow> keeps R N s s'"
proof -
  assume "rndOnly s s'" and r: "\<And>og. R og og"
  then obtain n where "s' = s\<lparr>randomPos := n\<rparr>" by (auto simp: rndOnly_def)
  moreover have "keeps R N s s" using r by (rule keeps_refl)
  ultimately show ?thesis by simp
qed

lemma keeps_after_rnd: "rndOnly s s' \<Longrightarrow> keeps R N s' s'' \<Longrightarrow> keeps R N s s''"
proof -
  assume "rndOnly s s'" and k: "keeps R N s' s''"
  then obtain m where "s' = s\<lparr>randomPos := m\<rparr>" by (auto simp: rndOnly_def)
  with k show ?thesis by simp
qed

lemma considerTarget_rnd: "rndOnly (snd st) (snd (considerTarget org n st))"
proof -
  have "snd (considerTarget org n st) = snd st \<or>
        snd (considerTarget org n st) = snd (Math_random (snd st))"
    by (simp add: considerTarget_def Let_def split_beta split: option.splits)
  then show ?thesis
    using rndOnly_refl [of "snd st"] rndOnly_random [of "snd st"] by auto
qed

lemma fold_considerTarget_rnd: "rndOnly (snd st) (snd (fold (considerTarget org) ns st))"
proof (induction ns arbitrary: st)
  case Nil
  then show ?case by simp
next
  case (Cons n ns)
  show ?case
    using considerTarget_rnd [of st org n] Cons.IH [of "considerTarget org n st"]
    by (auto intro: rndOnly_trans)
qed

lemma collectTargets_rnd: "rndOnly s (snd (collectTargets org s))"
proof -
  have "\<And>st. rndOnly (snd st)
          (snd (fold (\<lambda>k st. fold (considerTarget org) (neighbors8 (snd st) (fst k) (snd k)) st) ks st))"
    for ks
  proof (induction ks)
    case Nil
    then show ?case by simp
  next
    case (Cons k ks)
    show ?case
      using fold_considerTarget_rnd [of st org "neighbors8 (snd st) (fst k) (snd k)"]
            Cons.IH [of "fold (considerTarget org) (neighbors8 (snd st) (fst k) (snd k)) st"]
      by (auto intro: rndOnly_trans)
  qed
  from this [of "([], s)" "map fst (pixels org)"] show ?thesis
    by (simp add: collectTargets_def)
qed

lemma keeps_killCell:
  assumes c: "composable R N" and p: "\<And>og px. R og (og\<lparr>pixels := px\<rparr>)"
    and e: "\<And>og x. R og (og\<lparr>energy := x\<rparr>)"
  shows "keeps R N s (killCell i t s)"
proof -
  obtain tx ty tid where t: "t = (tx, ty, tid)" by (cases t)
  from c have r: "\<And>og. R og og" by (simp add: composable_def)
  let ?s1 = "updOrg i (\<lambda>og. og\<lparr>energy := fadd (energy og)
                 (fmul (c2 (params s)) (energyTransferRatio (params s)))\<rparr>) s"
  let ?s3 = "?s1\<lparr>envEnergy := fadd (envEnergy ?s1)
                   (fmul (c2 (params s)) (fsub 1 (energyTransferRatio (params s)))),
                 grid := (grid ?s1)[idx s tx ty := 0]\<rparr>"
  have k1: "keeps R N s ?s3"
    by simp (rule keeps_updOrg, simp_all add: e r)
  let ?s3' = "updOrg tid (\<lambda>og. og\<lparr>pixels := AList.delete (tx, ty) (pixels og)\<rparr>) ?s3"
  have k2: "keeps R N ?s3 ?s3'" by (rule keeps_updOrg) (simp_all add: p r)
  have k3: "keeps R N ?s3' (checkConnectivity tid ?s3')" by (rule keeps_checkConnectivity [OF c p])
  have k4: "keeps R N s (checkConnectivity tid ?s3')"
    using keeps_trans' [OF c k1 keeps_trans' [OF c k2 k3]] .
  show ?thesis
    using k1 k4 by (simp add: killCell_def t Let_def split: option.splits)
qed

lemma keeps_attackTarget:
  assumes c: "composable R N" and p: "\<And>og px. R og (og\<lparr>pixels := px\<rparr>)"
    and e: "\<And>og x. R og (og\<lparr>energy := x\<rparr>)"
  shows "keeps R N s (attackTarget i t s)"
proof -
  obtain tx ty tid where t: "t = (tx, ty, tid)" by (cases t)
  from c have r: "\<And>og. R og og" by (simp add: composable_def)
  let ?c = "attackEnergyCost (params s)"
  let ?s1 = "if ?c > 0 then updOrg i (\<lambda>og. og\<lparr>energy := energy og - ?c\<rparr>) s else s"
  let ?s2 = "?s1\<lparr>pixelHP := (pixelHP ?s1)[idx s tx ty := hpDec (pixelHP ?s1 ! idx s tx ty)]\<rparr>"
  have k1: "keeps R N s ?s1"
    by (auto intro!: keeps_updOrg keeps_refl' [OF c] simp: e r)
  then have k2: "keeps R N s ?s2" by simp
  have k3: "keeps R N ?s2 (killCell i t ?s2)" by (rule keeps_killCell [OF c p e])
  have k4: "keeps R N s (killCell i t ?s2)" using keeps_trans' [OF c k2 k3] .
  have eq: "attackTarget i t s =
      (if ?c > 0 \<and> (case getOrg s i of None \<Rightarrow> False | Some org \<Rightarrow> energy org - ?c \<le> 0) then s
       else if pixelHP ?s2 ! idx s tx ty > 0 then ?s2 else killCell i t ?s2)"
    unfolding attackTarget_def t Let_def prod.case ..
  show ?thesis
    unfolding eq using k2 k4 keeps_refl' [OF c, of s] by (simp only: if_split) blast
qed

lemma keeps_combatOrg:
  assumes c: "composable R N" and p: "\<And>og px. R og (og\<lparr>pixels := px\<rparr>)"
    and e: "\<And>og x. R og (og\<lparr>energy := x\<rparr>)"
  shows "keeps R N s (combatOrg i s)"
proof (cases "getOrg s i")
  case None
  then show ?thesis by (simp add: combatOrg_def keeps_refl' [OF c])
next
  case (Some org)
  from c have r: "\<And>og. R og og" by (simp add: composable_def)
  obtain ts s1 where ct: "collectTargets org s = (ts, s1)" by (cases "collectTargets org s")
  with collectTargets_rnd [of s org] have r1: "rndOnly s s1" by simp
  let ?s2 = "snd (Math_random s1)"
  have r2: "rndOnly s ?s2" using r1 rndOnly_random [of s1] by (rule rndOnly_trans)
  have "keeps R N ?s2 (attackTarget i (ts ! nat \<lfloor>fst (Math_random s1) * real (length ts)\<rfloor>) ?s2)"
    by (rule keeps_attackTarget [OF c p e])
  with r2 have "keeps R N s (attackTarget i (ts ! nat \<lfloor>fst (Math_random s1) * real (length ts)\<rfloor>) ?s2)"
    by (rule keeps_after_rnd)
  moreover have "keeps R N s s1" using r1 r by (rule keeps_rndOnly)
  moreover have "combatOrg i s =
      (if length ts = 0 then s1
       else attackTarget i (ts ! nat \<lfloor>fst (Math_random s1) * real (length ts)\<rfloor>) ?s2)"
    using Some ct by (simp add: combatOrg_def Let_def split_beta)
  ultimately show ?thesis by simp
qed

lemma keeps_combat:
  assumes c: "composable R N" and p: "\<And>og px. R og (og\<lparr>pixels := px\<rparr>)"
    and e: "\<And>og x. R og (og\<lparr>energy := x\<rparr>)"
  shows "keeps R N s (combat s)"
  unfolding combat_def by (rule keeps_fold [OF c]) (rule keeps_combatOrg [OF c p e])

lemma keeps_absorbCell:
  assumes c: "composable R N" and e: "\<And>og x. R og (og\<lparr>energy := x\<rparr>)"
  shows "keeps R N s (absorbCell i n s)"
proof -
  from c have r: "\<And>og. R og og" by (simp add: composable_def)
  obtain nx ny where n: "n = (nx, ny)" by (cases n)
  let ?c = "absorbEnergyCost (params s)"
  let ?s1 = "if ?c > 0 then updOrg i (\<lambda>og. og\<lparr>energy := fsub (energy og) ?c\<rparr>) s else s"
  let ?s2 = "?s1\<lparr>pixelHP := (pixelHP ?s1)[idx s nx ny := hpDec (pixelHP ?s1 ! idx s nx ny)]\<rparr>"
  let ?s3 = "updOrg i (\<lambda>og. og\<lparr>energy := fadd (energy og)
                 (fmul (c2 (params s)) (energyTransferRatio (params s)))\<rparr>) ?s2"
  have k1: "keeps R N s ?s1"
    by (auto intro!: keeps_updOrg keeps_refl' [OF c] simp: e r)
  then have k2: "keeps R N s ?s2" by simp
  have "keeps R N ?s2 ?s3" by (rule keeps_updOrg) (simp_all add: e r)
  with k2 have k3: "keeps R N s ?s3" by (rule keeps_trans' [OF c])
  have eq: "absorbCell i n s =
      (if pixelHP ?s2 ! idx s nx ny = 0
       then ?s3\<lparr>envEnergy := fadd (envEnergy ?s3)
                  (fmul (c2 (params s)) (fsub 1 (energyTransferRatio (params s)))),
                grid := (grid ?s3)[idx s nx ny := 0],
                foodPixels := AList.delete (nx, ny) (foodPixels ?s3)\<rparr>
       else ?s2)"
    unfolding absorbCell_def n Let_def prod.case ..
  show ?thesis unfolding eq using k2 k3 by simp
qed

lemma keeps_absorbNeighbors:
  assumes c: "composable R N" and e: "\<And>og x. R og (og\<lparr>energy := x\<rparr>)"
  shows "keeps R N s (snd (absorbNeighbors org ns s))"
  by (induction ns) (simp_all add: keeps_refl' [OF c] keeps_absorbCell [OF c e])

lemma keeps_absorbKeys:
  assumes c: "composable R N" and e: "\<And>og x. R og (og\<lparr>energy := x\<rparr>)"
  shows "keeps R N s (absorbKeys org ks s)"
proof (induction ks arbitrary: s)
  case Nil
  then show ?case by (simp add: keeps_refl' [OF c])
next
  case (Cons k ks)
  obtain b s1 where a: "absorbNeighbors org (neighbors8 s (fst k) (snd k)) s = (b, s1)"
    by (cases "absorbNeighbors org (neighbors8 s (fst k) (snd k)) s")
  with keeps_absorbNeighbors [OF c e, of s org "neighbors8 s (fst k) (snd k)"]
  have k1: "keeps R N s s1" by simp
  have k2: "keeps R N s1 (absorbKeys org ks s1)" by (rule Cons.IH)
  from keeps_trans' [OF c k1 k2] k1 a show ?case by (cases b) simp_all
qed

lemma keeps_absorbFood:
  assumes c: "composable R N" and e: "\<And>og x. R og (og\<lparr>energy := x\<rparr>)"
  shows "keeps R N s (absorbFood s)"
  unfolding absorbFood_def
proof (rule keeps_fold [OF c])
  fix x t
  show "keeps R N t (absorbOrg x t)"
    by (cases "getOrg t x") (simp_all add: absorbOrg_def keeps_refl' [OF c] keeps_absorbKeys [OF c e])
qed

lemma keeps_metabolism:
  assumes c: "composable R N" and e: "\<And>og a x. R og (og\<lparr>age := a, energy := x\<rparr>)"
  shows "keeps R N s (metabolism s)"
  unfolding metabolism_def
proof (rule keeps_fold [OF c])
  fix x t
  from c have r: "\<And>og. R og og" by (simp add: composable_def)
  show "keeps R N t (metabolismOrg x t)"
  proof (cases "getOrg t x")
    case None
    then show ?thesis by (simp add: metabolismOrg_def keeps_refl' [OF c])
  next
    case (Some org)
    let ?e = "energy org - real (length (pixels org)) * metabolismRate (params t)"
    let ?s1 = "updOrg x (\<lambda>og. og\<lparr>age := age og + 1, energy := ?e\<rparr>) t"
    have k1: "keeps R N t ?s1" by (rule keeps_updOrg) (simp_all add: e r)
    have "keeps R N ?s1 (removeOrganism x ?s1)" by (rule keeps_removeOrganism [OF c])
    with k1 have "keeps R N t (removeOrganism x ?s1)" by (rule keeps_trans' [OF c])
    with k1 Some show ?thesis by (simp add: metabolismOrg_def Let_def)
  qed
qed

lemma spawnLoop_frame [simp]:
  "organisms (spawnLoop n s) = organisms s"
  "params (spawnLoop n s) = params s"
  "gridSize (spawnLoop n s) = gridSize s"
  "tick (spawnLoop n s) = tick s"
  "nextID (spawnLoop n s) = nextID s"
  by (induction n arbitrary: s; simp add: Math_random_def Let_def)+

lemma keeps_spawnFood: "(\<And>og. R og og) \<Longrightarrow> keeps R N s (spawnFood s)"
  by (rule keeps_same) (simp_all add: spawnFood_def)

lemma keeps_updateFoodDecay: "(\<And>og. R og og) \<Longrightarrow> keeps R N s (updateFoodDecay s)"
  by (rule keeps_same) simp_all

lemma getOrg_map_orgs:
  "(\<And>og. id_o (f og) = id_o og) \<Longrightarrow>
   getOrg (s\<lparr>organisms := map f (organisms s)\<rparr>) i = map_option f (getOrg s i)"
proof -
  assume f: "\<And>og. id_o (f og) = id_o og"
  have "find (\<lambda>og. id_o og = i) (map f xs) = map_option f (find (\<lambda>og. id_o og = i) xs)" for xs
    by (induction xs) (simp_all add: f)
  then show ?thesis by (simp add: getOrg_def)
qed

lemma keeps_syncCell:
  assumes c: "composable R N" and p: "\<And>og px. R og (og\<lparr>pixels := px\<rparr>)"
  shows "keeps R N s (syncCell k s)"
proof -
  from c have r: "\<And>og. R og og" by (simp add: composable_def)
  have u: "\<And>i f. (\<And>og. f og = og\<lparr>pixels := pixels (f og)\<rparr>) \<Longrightarrow> keeps R N s (updOrg i f s)"
  proof -
    fix i and f :: "Organism \<Rightarrow> Organism"
    assume f: "\<And>og. f og = og\<lparr>pixels := pixels (f og)\<rparr>"
    show "keeps R N s (updOrg i f s)"
    proof (rule keeps_updOrg)
      fix og
      show "id_o (f og) = id_o og" by (subst f) simp
      show "R og (f og)" by (subst f) (rule p)
      show "R og og" by (rule r)
    qed
  qed
  show ?thesis
    unfolding syncCell_def Let_def
    by (auto split: option.splits intro!: u keeps_makeFood r keeps_refl' [OF c])
qed

lemma keeps_verifyAndSync:
  assumes c: "composable R N" and p: "\<And>og px. R og (og\<lparr>pixels := px\<rparr>)"
  shows "keeps R N s (verifyAndSync s)"
proof -
  let ?s0 = "s\<lparr>organisms := map (\<lambda>og. og\<lparr>pixels := []\<rparr>) (organisms s)\<rparr>"
  have k0: "keeps R N s ?s0"
    by (rule keepsI) (auto simp: getOrg_map_orgs p)
  have "keeps R N ?s0 (fold syncCell (allCells s) ?s0)"
    by (rule keeps_fold [OF c]) (rule keeps_syncCell [OF c p])
  with k0 show ?thesis unfolding verifyAndSync_def by (rule keeps_trans' [OF c])
qed

subsection \<open>Planning, growth and movement leave the rest alone\<close>

lemma composable_planned: "composable planned noNew"
  unfolding composable_def planned_def noNew_def stable_def by auto

lemma rndOnly_randomDirection: "rndOnly s (snd (randomDirection s))"
  using rndOnly_random [of s] by (simp add: randomDirection_def split_beta)

lemma chooseDirection_state:
  "rndOnly s (snd (chooseDirection org s)) \<or>
   (\<exists>t. rndOnly s t \<and>
      snd (chooseDirection org s) =
        snd (randomDirection (updOrg (id_o org) (\<lambda>og. og\<lparr>stuckCounter := 0\<rparr>) t)))"
proof -
  let ?t1 = "snd (Math_random s)"
  let ?s1 = "if detectFood s org \<noteq> [] then ?t1 else s"
  let ?s2 = "snd (Math_random ?s1)"
  have r1: "rndOnly s ?s1" by simp
  have r2: "rndOnly s ?s2" using r1 rndOnly_random by (rule rndOnly_trans)
  have "snd (chooseDirection org s) = s \<or> snd (chooseDirection org s) = ?t1 \<or>
        snd (chooseDirection org s) = ?s1 \<or> snd (chooseDirection org s) = ?s2 \<or>
        snd (chooseDirection org s) =
          snd (randomDirection (updOrg (id_o org) (\<lambda>og. og\<lparr>stuckCounter := 0\<rparr>) ?s2))"
    by (simp add: chooseDirection_def Let_def split_beta)
  with r1 r2 show ?thesis
    using rndOnly_refl [of s] rndOnly_random [of s] by metis
qed

lemma keeps_updOrg_at:
  "(\<And>og. id_o (f og) = id_o og) \<Longrightarrow> (\<And>og. getOrg s i = Some og \<Longrightarrow> R og (f og)) \<Longrightarrow>
   (\<And>og. R og og) \<Longrightarrow> keeps R N s (updOrg i f s)"
  by (rule keepsI) (auto simp: getOrg_updOrg split: if_splits)

lemma keeps_planOrg:
  assumes c: "composable R N"
    and k: "\<And>og x. R og (og\<lparr>stuckCounter := x\<rparr>)"
    and d: "\<And>og x m. R og (og\<lparr>direction := x, movedThisTick := m\<rparr>)"
  shows "keeps R N s (planOrg i s)"
proof (cases "getOrg s i")
  case None
  then show ?thesis by (simp add: planOrg_def keeps_refl' [OF c])
next
  case (Some org)
  from c have r: "\<And>og. R og og" by (simp add: composable_def)
  let ?s1 = "snd (chooseDirection org s)"
  have k1: "keeps R N s ?s1"
  proof -
    from chooseDirection_state [of s org]
    consider "rndOnly s ?s1"
      | t where "rndOnly s t"
          "?s1 = snd (randomDirection (updOrg (id_o org) (\<lambda>og. og\<lparr>stuckCounter := 0\<rparr>) t))"
      by blast
    then show ?thesis
    proof cases
      case 1
      then show ?thesis using r by (rule keeps_rndOnly)
    next
      case 2
      let ?u = "updOrg (id_o org) (\<lambda>og. og\<lparr>stuckCounter := 0\<rparr>) t"
      have "keeps R N t ?u" by (rule keeps_updOrg) (simp_all add: k r)
      with 2(1) have a: "keeps R N s ?u" by (rule keeps_after_rnd)
      have "keeps R N ?u (snd (randomDirection ?u))"
        using rndOnly_randomDirection r by (rule keeps_rndOnly)
      with a show ?thesis unfolding 2(2) by (rule keeps_trans' [OF c])
    qed
  qed
  have "keeps R N ?s1
          (updOrg i (\<lambda>og. og\<lparr>direction := fst (chooseDirection org s), movedThisTick := False\<rparr>) ?s1)"
    by (rule keeps_updOrg) (simp_all add: d r)
  with k1 show ?thesis
    using Some by (simp add: planOrg_def split_beta keeps_trans' [OF c])
qed

lemma keeps_growOrganism:
  assumes c: "composable R N"
    and g: "\<And>og px e. growthStage og < int (totalCells (genome og)) - 1 \<Longrightarrow>
              R og (og\<lparr>pixels := px, growthStage := growthStage og + 1, energy := e\<rparr>)"
  shows "keeps R N s (snd (growOrganism i s))"
proof (cases "getOrg s i")
  case None
  then show ?thesis by (simp add: growOrganism_def keeps_refl' [OF c])
next
  case (Some org)
  from c have r: "\<And>og. R og og" by (simp add: composable_def)
  show ?thesis
  proof (cases "growthStage org \<ge> int (totalCells (genome org)) - 1")
    case True
    with Some show ?thesis by (simp add: growOrganism_def keeps_refl' [OF c])
  next
    case False
    have u: "\<And>px e t. keeps R N s
        (updOrg i (\<lambda>og. og\<lparr>pixels := px og, growthStage := growthStage og + 1, energy := e og\<rparr>) s)"
      by (rule keeps_updOrg_at) (use Some False g r in auto)
    have u': "\<And>px e g h. keeps R N (s\<lparr>grid := g, pixelHP := h\<rparr>)
        (updOrg i (\<lambda>og. og\<lparr>pixels := px og, growthStage := growthStage og + 1, energy := e og\<rparr>)
           (s\<lparr>grid := g, pixelHP := h\<rparr>))"
      by (rule keeps_updOrg_at) (use Some False g r in auto)
    show ?thesis
      using Some False u'
      by (auto simp: growOrganism_def Let_def keeps_refl' [OF c] split: option.splits)
  qed
qed

lemma keeps_growIfStill:
  assumes c: "composable R N"
    and g: "\<And>og px e. growthStage og < int (totalCells (genome og)) - 1 \<Longrightarrow>
              R og (og\<lparr>pixels := px, growthStage := growthStage og + 1, energy := e\<rparr>)"
  shows "keeps R N s (growIfStill i s)"
  by (cases "getOrg s i")
     (simp_all add: growIfStill_def keeps_refl' [OF c] keeps_growOrganism [OF c g])

lemma writeCell_frame [simp]:
  "organisms (writeCell og p s) = organisms s"
  "params (writeCell og p s) = params s"
  "gridSize (writeCell og p s) = gridSize s"
  "foodPixels (writeCell og p s) = foodPixels s"
  "nextID (writeCell og p s) = nextID s"
  "tick (writeCell og p s) = tick s"
  "envEnergy (writeCell og p s) = envEnergy s"
  "obstacleKeys (writeCell og p s) = obstacleKeys s"
  "length (grid (writeCell og p s)) = length (grid s)"
  "length (pixelHP (writeCell og p s)) = length (pixelHP s)"
  by (simp_all add: writeCell_def Let_def)

lemma fold_writeCell_frame [simp]:
  "organisms (fold (writeCell og) ps s) = organisms s"
  "params (fold (writeCell og) ps s) = params s"
  "gridSize (fold (writeCell og) ps s) = gridSize s"
  "foodPixels (fold (writeCell og) ps s) = foodPixels s"
  "nextID (fold (writeCell og) ps s) = nextID s"
  "tick (fold (writeCell og) ps s) = tick s"
  "envEnergy (fold (writeCell og) ps s) = envEnergy s"
  "obstacleKeys (fold (writeCell og) ps s) = obstacleKeys s"
  "length (grid (fold (writeCell og) ps s)) = length (grid s)"
  "length (pixelHP (fold (writeCell og) ps s)) = length (pixelHP s)"
  by (induction ps arbitrary: s; simp)+

lemma clearCell_frame [simp]:
  "organisms (clearCell d k s) = organisms s"
  "params (clearCell d k s) = params s"
  "gridSize (clearCell d k s) = gridSize s"
  "foodPixels (clearCell d k s) = foodPixels s"
  "nextID (clearCell d k s) = nextID s"
  "tick (clearCell d k s) = tick s"
  "envEnergy (clearCell d k s) = envEnergy s"
  "obstacleKeys (clearCell d k s) = obstacleKeys s"
  "length (grid (clearCell d k s)) = length (grid s)"
  "length (pixelHP (clearCell d k s)) = length (pixelHP s)"
  by (simp_all add: clearCell_def Let_def)

lemma fold_clearCell_frame [simp]:
  "organisms (fold (clearCell d) ks s) = organisms s"
  "params (fold (clearCell d) ks s) = params s"
  "gridSize (fold (clearCell d) ks s) = gridSize s"
  "foodPixels (fold (clearCell d) ks s) = foodPixels s"
  "nextID (fold (clearCell d) ks s) = nextID s"
  "tick (fold (clearCell d) ks s) = tick s"
  "envEnergy (fold (clearCell d) ks s) = envEnergy s"
  "obstacleKeys (fold (clearCell d) ks s) = obstacleKeys s"
  "length (grid (fold (clearCell d) ks s)) = length (grid s)"
  "length (pixelHP (fold (clearCell d) ks s)) = length (pixelHP s)"
  by (induction ks arbitrary: s; simp)+

lemma clearLoop_frame [simp]:
  "organisms (fold (\<lambda>c. fold (clearCell d) (map fst (pixels (fst c)))) cs s) = organisms s"
  "params (fold (\<lambda>c. fold (clearCell d) (map fst (pixels (fst c)))) cs s) = params s"
  "gridSize (fold (\<lambda>c. fold (clearCell d) (map fst (pixels (fst c)))) cs s) = gridSize s"
  "foodPixels (fold (\<lambda>c. fold (clearCell d) (map fst (pixels (fst c)))) cs s) = foodPixels s"
  "nextID (fold (\<lambda>c. fold (clearCell d) (map fst (pixels (fst c)))) cs s) = nextID s"
  "tick (fold (\<lambda>c. fold (clearCell d) (map fst (pixels (fst c)))) cs s) = tick s"
  "envEnergy (fold (\<lambda>c. fold (clearCell d) (map fst (pixels (fst c)))) cs s) = envEnergy s"
  "obstacleKeys (fold (\<lambda>c. fold (clearCell d) (map fst (pixels (fst c)))) cs s) = obstacleKeys s"
  "length (grid (fold (\<lambda>c. fold (clearCell d) (map fst (pixels (fst c)))) cs s)) = length (grid s)"
  "length (pixelHP (fold (\<lambda>c. fold (clearCell d) (map fst (pixels (fst c)))) cs s)) = length (pixelHP s)"
  by (induction cs arbitrary: s; simp)+

lemma clearSources_frame [simp]:
  "organisms (clearSources cs s) = organisms s"
  "params (clearSources cs s) = params s"
  "gridSize (clearSources cs s) = gridSize s"
  "foodPixels (clearSources cs s) = foodPixels s"
  "nextID (clearSources cs s) = nextID s"
  "tick (clearSources cs s) = tick s"
  "envEnergy (clearSources cs s) = envEnergy s"
  "obstacleKeys (clearSources cs s) = obstacleKeys s"
  "length (grid (clearSources cs s)) = length (grid s)"
  "length (pixelHP (clearSources cs s)) = length (pixelHP s)"
  by (simp_all add: clearSources_def)

lemma applyCommit_eq:
  "applyCommit c s = updOrg (id_o (fst c)) (commitOrg s c) (fold (writeCell (fst c)) (snd (snd c)) s)"
  by (simp add: applyCommit_def commitOrg_def split_beta Let_def)

lemma commitOrg_id [simp]: "id_o (commitOrg s c o1) = id_o o1"
  by (simp add: commitOrg_def Let_def)

lemma applyCommit_frame [simp]:
  "params (applyCommit c s) = params s"
  "gridSize (applyCommit c s) = gridSize s"
  "foodPixels (applyCommit c s) = foodPixels s"
  "nextID (applyCommit c s) = nextID s"
  "tick (applyCommit c s) = tick s"
  "envEnergy (applyCommit c s) = envEnergy s"
  "obstacleKeys (applyCommit c s) = obstacleKeys s"
  "length (grid (applyCommit c s)) = length (grid s)"
  "length (pixelHP (applyCommit c s)) = length (pixelHP s)"
  by (simp_all add: applyCommit_eq)

lemma keeps_applyCommit:
  assumes c: "composable R N"
    and m: "\<And>og px ex ey e. R og (og\<lparr>pixels := px, eyeX := ex, eyeY := ey, energy := e,
                 stamina := max 0 (stamina og - staminaDrainPerStep (params s)),
                 movedThisTick := True\<rparr>)"
  shows "keeps R N s (applyCommit cm s)"
proof -
  from c have r: "\<And>og. R og og" by (simp add: composable_def)
  let ?s1 = "fold (writeCell (fst cm)) (snd (snd cm)) s"
  have k1: "keeps R N s ?s1" by (rule keeps_same) (simp_all add: r)
  have "keeps R N ?s1 (updOrg (id_o (fst cm)) (commitOrg s cm) ?s1)"
    by (rule keeps_updOrg) (simp_all add: r, simp add: commitOrg_def Let_def m)
  with k1 show ?thesis unfolding applyCommit_eq by (rule keeps_trans' [OF c])
qed

lemma keeps_fold_applyCommit:
  assumes c: "composable R N"
    and m: "\<And>og px ex ey e. R og (og\<lparr>pixels := px, eyeX := ex, eyeY := ey, energy := e,
                 stamina := max 0 (stamina og - staminaDrainPerStep (params s)),
                 movedThisTick := True\<rparr>)"
  shows "keeps R N s (fold applyCommit cs s)"
proof -
  have "params t = params s \<Longrightarrow> keeps R N t (fold applyCommit cs t)" for t
  proof (induction cs arbitrary: t)
    case Nil
    then show ?case by (simp add: keeps_refl' [OF c])
  next
    case (Cons a cs)
    have k1: "keeps R N t (applyCommit a t)"
      by (rule keeps_applyCommit [OF c]) (simp add: Cons.prems m)
    have "params (applyCommit a t) = params s" using Cons.prems by simp
    from Cons.IH [OF this] k1 show ?case by (simp add: keeps_trans' [OF c])
  qed
  then show ?thesis by simp
qed

lemma keeps_moveLoop:
  assumes c: "composable R N"
    and m: "\<And>og px ex ey e. R og (og\<lparr>pixels := px, eyeX := ex, eyeY := ey, energy := e,
                 stamina := max 0 (stamina og - staminaDrainPerStep p),
                 movedThisTick := True\<rparr>)"
  shows "params s = p \<Longrightarrow> keeps R N s (fst (moveLoop s sts))"
proof (induction s sts rule: moveLoop.induct)
  case (1 s sts)
  from c have r: "\<And>og. R og og" by (simp add: composable_def)
  show ?case
  proof (cases "filter isMoving sts = []")
    case True
    then show ?thesis by (simp add: moveLoop.simps keeps_refl' [OF c])
  next
    case False
    let ?s0 = "s\<lparr>reservations := staticReservations s sts\<rparr>"
    let ?cs = "decideCommits s sts"
    show ?thesis
    proof (cases "?cs = []")
      case True
      with False show ?thesis
        by (simp add: moveLoop.simps [of s sts] Let_def keeps_refl' [OF c])
    next
      case ne: False
      let ?s1 = "fold applyCommit ?cs (clearSources ?cs ?s0)"
      have k0: "keeps R N s (clearSources ?cs ?s0)"
        by (rule keeps_same) (simp_all add: r)
      have "keeps R N (clearSources ?cs ?s0) ?s1"
        by (rule keeps_fold_applyCommit [OF c]) (simp add: "1.prems" m)
      with k0 have k1: "keeps R N s ?s1" by (rule keeps_trans' [OF c])
      have p1: "params ?s1 = p"
      proof -
        from k1 have "params ?s1 = params s" by (simp add: keeps_def)
        with "1.prems" show ?thesis by simp
      qed
      have "keeps R N ?s1 (fst (moveLoop ?s1 (markMoved ?cs sts)))"
        by (rule "1.IH" [OF False refl refl ne p1])
      with k1 have "keeps R N s (fst (moveLoop ?s1 (markMoved ?cs sts)))"
        by (rule keeps_trans' [OF c])
      with False ne show ?thesis
        by (simp add: moveLoop.simps [of s sts] Let_def)
    qed
  qed
qed

lemma recover_frame [simp]:
  "params (recover st s) = params s"
  "gridSize (recover st s) = gridSize s"
  "grid (recover st s) = grid s"
  "pixelHP (recover st s) = pixelHP s"
  "foodPixels (recover st s) = foodPixels s"
  by (simp_all add: recover_def)

lemma keeps_fold_recover:
  assumes c: "composable R N"
    and rc: "\<And>og. R og (og\<lparr>stamina := min (staminaMax p) (stamina og + staminaRecoveryPerTick p)\<rparr>)"
  shows "params s = p \<Longrightarrow> keeps R N s (fold recover sts s)"
proof (induction sts arbitrary: s)
  case Nil
  then show ?case by (simp add: keeps_refl' [OF c])
next
  case (Cons st sts)
  from c have r: "\<And>og. R og og" by (simp add: composable_def)
  have k1: "keeps R N s (recover st s)"
    unfolding recover_def
    by (auto intro!: keeps_updOrg keeps_refl' [OF c] simp: r rc Cons.prems)
  have "params (recover st s) = p" using Cons.prems by simp
  from Cons.IH [OF this] k1 show ?case by (simp add: keeps_trans' [OF c])
qed

lemma keeps_moveOrganisms:
  assumes c: "composable R N"
    and m: "\<And>og px ex ey e. R og (og\<lparr>pixels := px, eyeX := ex, eyeY := ey, energy := e,
                 stamina := max 0 (stamina og - staminaDrainPerStep (params s)),
                 movedThisTick := True\<rparr>)"
    and rc: "\<And>og. R og (og\<lparr>stamina := min (staminaMax (params s))
                                   (stamina og + staminaRecoveryPerTick (params s))\<rparr>)"
  shows "keeps R N s (moveOrganisms s)"
proof -
  let ?sts = "map (initialMoveState s) (organisms s)"
  let ?r = "moveLoop (s\<lparr>reservations := []\<rparr>) ?sts"
  have "keeps R N (s\<lparr>reservations := []\<rparr>) (fst ?r)"
    by (rule keeps_moveLoop [OF c, where p = "params s"]) (simp_all add: m)
  then have k1: "keeps R N s (fst ?r)" by simp
  then have "params (fst ?r) = params s" by (simp add: keeps_def)
  then have "keeps R N (fst ?r) (fold recover (snd ?r) (fst ?r))"
    by (rule keeps_fold_recover [OF c rc])
  with k1 have "keeps R N s (fold recover (snd ?r) (fst ?r))" by (rule keeps_trans' [OF c])
  then show ?thesis by (simp add: moveOrganisms_def Let_def split_beta)
qed

end
